theory Spec2Isabelle
  imports Main "HOL-Library.Sublist"
begin

section \<open>Strings\<close>

text \<open>
  A Go string is a sequence of bytes; it is modelled as \<^typ>\<open>string\<close>, a list of 8-bit
  characters. The library functions of package \<open>strings\<close> that the parser calls are modelled
  on bytes, as Go defines them.
\<close>

text \<open>\<open>strings.HasPrefix\<close> is \<^const>\<open>prefix\<close>, \<open>strings.HasSuffix\<close> is \<^const>\<open>suffix\<close>.\<close>

definition stripPrefix :: "string \<Rightarrow> string \<Rightarrow> string option" where
  "stripPrefix pre s = (if prefix pre s then Some (drop (length pre) s) else None)"

text \<open>
  \<open>strings.TrimSpace\<close> removes leading and trailing white space as Unicode defines it.
  The ASCII white-space bytes are tab, line feed, vertical tab, form feed, carriage return and
  space. The other white-space runes are U+0085, U+00A0 (two bytes in UTF-8) and U+1680,
  U+2000 to U+200A, U+2028, U+2029, U+202F, U+205F, U+3000 (three bytes). A byte sequence that
  is not valid UTF-8 decodes to U+FFFD, which is not white space, so trimming stops there.
\<close>

definition asciiSpace :: "char \<Rightarrow> bool" where
  "asciiSpace c \<longleftrightarrow>
     c \<in> set [CHR 0x09, CHR 0x0A, CHR 0x0B, CHR 0x0C, CHR 0x0D, CHR 0x20]"

definition spaces2 :: "string list" where
  "spaces2 = [[CHR 0xC2, CHR 0x85], [CHR 0xC2, CHR 0xA0]]"

definition spaces3 :: "string list" where
  "spaces3 =
     [[CHR 0xE1, CHR 0x9A, CHR 0x80],
      [CHR 0xE2, CHR 0x80, CHR 0x80], [CHR 0xE2, CHR 0x80, CHR 0x81],
      [CHR 0xE2, CHR 0x80, CHR 0x82], [CHR 0xE2, CHR 0x80, CHR 0x83],
      [CHR 0xE2, CHR 0x80, CHR 0x84], [CHR 0xE2, CHR 0x80, CHR 0x85],
      [CHR 0xE2, CHR 0x80, CHR 0x86], [CHR 0xE2, CHR 0x80, CHR 0x87],
      [CHR 0xE2, CHR 0x80, CHR 0x88], [CHR 0xE2, CHR 0x80, CHR 0x89],
      [CHR 0xE2, CHR 0x80, CHR 0x8A],
      [CHR 0xE2, CHR 0x80, CHR 0xA8], [CHR 0xE2, CHR 0x80, CHR 0xA9],
      [CHR 0xE2, CHR 0x80, CHR 0xAF], [CHR 0xE2, CHR 0x81, CHR 0x9F],
      [CHR 0xE3, CHR 0x80, CHR 0x80]]"

text \<open>The width in bytes of the white-space rune a string starts with, 0 if there is none.\<close>

definition spaceWidth :: "string \<Rightarrow> nat" where
  "spaceWidth s =
     (if s \<noteq> [] \<and> asciiSpace (hd s) then 1
      else if take 2 s \<in> set spaces2 then 2
      else if take 3 s \<in> set spaces3 then 3
      else 0)"

text \<open>The width in bytes of the white-space rune a string ends with, 0 if there is none.\<close>

definition spaceWidthR :: "string \<Rightarrow> nat" where
  "spaceWidthR s =
     (if s \<noteq> [] \<and> asciiSpace (last s) then 1
      else if drop (length s - 2) s \<in> set spaces2 then 2
      else if drop (length s - 3) s \<in> set spaces3 then 3
      else 0)"

lemma spaceWidth_le: "spaceWidth s \<le> length s"
proof -
  have "take 2 s \<in> set spaces2 \<Longrightarrow> 2 \<le> length s"
    by (cases s; cases "tl s") (auto simp: spaces2_def)
  moreover have "take 3 s \<in> set spaces3 \<Longrightarrow> 3 \<le> length s"
    by (cases s; cases "tl s"; cases "tl (tl s)") (auto simp: spaces3_def)
  moreover have "s \<noteq> [] \<Longrightarrow> 1 \<le> length s"
    by (cases s) auto
  ultimately show ?thesis
    by (auto simp: spaceWidth_def)
qed

lemma spaceWidthR_le: "spaceWidthR s \<le> length s"
proof -
  have "drop (length s - 2) s \<in> set spaces2 \<Longrightarrow> 2 \<le> length s"
  proof -
    assume a: "drop (length s - 2) s \<in> set spaces2"
    then have "length (drop (length s - 2) s) = 2"
      by (auto simp: spaces2_def simp del: length_drop)
    then show ?thesis by simp
  qed
  moreover have "drop (length s - 3) s \<in> set spaces3 \<Longrightarrow> 3 \<le> length s"
  proof -
    assume a: "drop (length s - 3) s \<in> set spaces3"
    then have "length (drop (length s - 3) s) = 3"
      by (auto simp: spaces3_def simp del: length_drop)
    then show ?thesis by simp
  qed
  moreover have "s \<noteq> [] \<Longrightarrow> 1 \<le> length s"
    by (cases s) auto
  ultimately show ?thesis
    by (auto simp: spaceWidthR_def)
qed

function trimLeft :: "string \<Rightarrow> string" where
  "trimLeft s = (if spaceWidth s = 0 then s else trimLeft (drop (spaceWidth s) s))"
  by pat_completeness auto
termination
proof (relation "measure length")
  fix s :: string
  assume "spaceWidth s \<noteq> 0"
  moreover have "spaceWidth s \<le> length s" by (rule spaceWidth_le)
  ultimately show "(drop (spaceWidth s) s, s) \<in> measure length"
    by simp
qed simp

function trimRight :: "string \<Rightarrow> string" where
  "trimRight s =
     (if spaceWidthR s = 0 then s else trimRight (take (length s - spaceWidthR s) s))"
  by pat_completeness auto
termination
proof (relation "measure length")
  fix s :: string
  assume "spaceWidthR s \<noteq> 0"
  moreover have "spaceWidthR s \<le> length s" by (rule spaceWidthR_le)
  ultimately show "(take (length s - spaceWidthR s) s, s) \<in> measure length"
    by simp
qed simp

declare trimLeft.simps [simp del] trimRight.simps [simp del]

definition TrimSpace :: "string \<Rightarrow> string" where
  "TrimSpace s = trimRight (trimLeft s)"

text \<open>
  \<open>strings.IndexAny(s, " \t")\<close> finds the first space or tab; the two callers cut the
  string there.
\<close>

definition blank :: "char \<Rightarrow> bool" where
  "blank c \<longleftrightarrow> c = CHR 0x20 \<or> c = CHR 0x09"

text \<open>
  \<open>cutBlank s\<close> is \<open>(s[:idx], Some s[idx+1:])\<close> for the index \<open>idx\<close> of the first
  space or tab of \<open>s\<close>, and \<open>(s, None)\<close> when \<open>IndexAny\<close> returns \<open>-1\<close>.
\<close>

definition cutBlank :: "string \<Rightarrow> string \<times> string option" where
  "cutBlank s =
     (let tok = takeWhile (\<lambda>c. \<not> blank c) s; r = dropWhile (\<lambda>c. \<not> blank c) s
      in if r = [] then (tok, None) else (tok, Some (tl r)))"

text \<open>\<open>strings.Join\<close>.\<close>

fun Join :: "string list \<Rightarrow> string \<Rightarrow> string" where
  "Join [] sep = []"
| "Join [x] sep = x"
| "Join (x # y # xs) sep = x @ sep @ Join (y # xs) sep"

text \<open>\<open>strings.Index(s, "=")\<close>: the position of the first \<open>=\<close>, if any.\<close>

definition IndexEq :: "string \<Rightarrow> nat option" where
  "IndexEq s =
     (if CHR ''='' \<in> set s then Some (length (takeWhile (\<lambda>c. c \<noteq> CHR ''='') s)) else None)"

section \<open>The document model (model.go)\<close>

text \<open>
  Each struct is a record. Field names repeat across the Go structs, so every field carries
  the name of its struct. Line numbers are natural numbers. A pointer field of \<open>Block\<close> is an
  option: \<open>None\<close> is \<open>nil\<close>. The struct \<open>Option\<close> is the record \<open>Opt\<close>.
\<close>

record Value =
  Value_Name :: string
  Value_Required :: bool
  Value_Default :: string
  Value_Variadic :: bool

record Flag =
  Flag_Short :: string
  Flag_Long :: string
  Flag_Description :: string
  Flag_Line :: nat

record Opt =
  Option_Short :: string
  Option_Long :: string
  Option_Value :: Value
  Option_Description :: string
  Option_Line :: nat

record Operand =
  Operand_Value :: Value
  Operand_Description :: string
  Operand_Line :: nat

record Env =
  Env_Name :: string
  Env_Description :: string
  Env_Line :: nat

record Reads =
  Reads_Path :: string
  Reads_Description :: string
  Reads_Line :: nat

record Stdin =
  Stdin_Description :: string
  Stdin_Line :: nat

record Exit =
  Exit_Code :: string
  Exit_Description :: string
  Exit_Line :: nat

record Stdout =
  Stdout_Description :: string
  Stdout_Line :: nat

record Stderr =
  Stderr_Description :: string
  Stderr_Line :: nat

record Sets =
  Sets_Name :: string
  Sets_Description :: string
  Sets_Line :: nat

record Writes =
  Writes_Path :: string
  Writes_Description :: string
  Writes_Line :: nat

record Deprecated =
  Deprecated_Message :: string
  Deprecated_Line :: nat

datatype Visibility =
  VisibilityCommand | VisibilitySubcommand | VisibilityPublic | VisibilityPrivate

record Block =
  Block_Visibility :: Visibility
  Block_Name :: string
  Block_Description :: string
  Block_FunctionName :: string
  Block_Line :: nat
  Block_Flags :: "Flag list"
  Block_Options :: "Opt list"
  Block_Operands :: "Operand list"
  Block_Env :: "Env list"
  Block_Reads :: "Reads list"
  Block_Stdin :: "Stdin option"
  Block_Exit :: "Exit list"
  Block_Stdout :: "Stdout option"
  Block_Stderr :: "Stderr option"
  Block_Sets :: "Sets list"
  Block_Writes :: "Writes list"
  Block_Deprecated :: "Deprecated option"

record Meta =
  Meta_Name :: string
  Meta_Version :: string
  Meta_Synopsis :: string
  Meta_Description :: string
  Meta_Examples :: string
  Meta_Section :: string
  Meta_Author :: string
  Meta_License :: string

section \<open>Value notation (value.go)\<close>

text \<open>The errors of \<open>ParseValue\<close>, one constructor for each \<open>fmt.Errorf\<close>, with the string it quotes.\<close>

datatype value_error =
  ErrTooShort string
  | ErrBrackets string
  | ErrEmptyName string
  | ErrEmptyNameVariadic string
  | ErrRequiredDefault string
  | ErrEmptyNameDefault string

definition ParseValue :: "string \<Rightarrow> value_error + Value" where
  "ParseValue s0 =
     (let s = TrimSpace s0 in
      if length s < 3 then Inl (ErrTooShort s)
      else
        let open = hd s; close = last s in
        if \<not> (open = CHR ''<'' \<and> close = CHR ''>'') \<and> \<not> (open = CHR ''['' \<and> close = CHR '']'')
        then Inl (ErrBrackets s)
        else
          let required = (open = CHR ''<'' \<and> close = CHR ''>'');
              inner0 = take (length s - 2) (tl s) in
          if inner0 = [] then Inl (ErrEmptyName s)
          else
            let variadic = suffix ''...'' inner0;
                inner1 = (if variadic then take (length inner0 - 3) inner0 else inner0) in
            if variadic \<and> inner1 = [] then Inl (ErrEmptyNameVariadic s)
            else
              (case IndexEq inner1 of
                 None \<Rightarrow>
                   Inr \<lparr>Value_Name = inner1, Value_Required = required,
                        Value_Default = [], Value_Variadic = variadic\<rparr>
               | Some idx \<Rightarrow>
                   if required then Inl (ErrRequiredDefault s)
                   else if take idx inner1 = [] then Inl (ErrEmptyNameDefault s)
                   else
                     Inr \<lparr>Value_Name = take idx inner1, Value_Required = required,
                          Value_Default = drop (idx + 1) inner1, Value_Variadic = variadic\<rparr>))"


text \<open>
  \<open>formatValue\<close> of internal/generate/helptext.go writes a \<open>Value\<close> back in value notation.
\<close>

definition formatValue :: "Value \<Rightarrow> string" where
  "formatValue v =
     (let name = (if Value_Variadic v then Value_Name v @ ''...'' else Value_Name v) in
      if Value_Required v then ''<'' @ name @ ''>''
      else if Value_Default v \<noteq> [] then ''['' @ name @ ''='' @ Value_Default v @ '']''
      else ''['' @ name @ '']'')"

section \<open>Tag parsers (tag.go)\<close>

text \<open>
  The errors of the tag parsers, one constructor for each \<open>fmt.Errorf\<close>. The message text
  that \<open>err.Error()\<close> renders is not modelled; the constructor tells which error it is.
\<close>

datatype tag_error =
  ErrUnknownTag string
  | ErrFlagNoName
  | ErrOptionNoName
  | ErrOptionNoValue
  | ErrOptionValue value_error
  | ErrOperandNoValue
  | ErrOperandValue value_error
  | ErrEnvNoName
  | ErrReadsNoPath
  | ErrExitNoCode
  | ErrSetsNoName
  | ErrWritesNoPath

text \<open>The \<open>any\<close> that \<open>parseTag\<close> returns holds a pointer to one of twelve structs.\<close>

datatype tag_result =
  RFlag Flag
  | ROption Opt
  | ROperand Operand
  | REnv Env
  | RReads Reads
  | RStdin Stdin
  | RExit Exit
  | RStdout Stdout
  | RStderr Stderr
  | RSets Sets
  | RWrites Writes
  | RDeprecated Deprecated

definition splitFirstToken :: "string \<Rightarrow> string \<times> string" where
  "splitFirstToken s0 =
     (let s = TrimSpace s0 in
      case cutBlank s of
        (tok, None) \<Rightarrow> (s, [])
      | (tok, Some r) \<Rightarrow> (tok, r))"

lemma spaceWidth_Nil [simp]: "spaceWidth [] = 0"
  by (simp add: spaceWidth_def spaces2_def spaces3_def)

lemma spaceWidthR_Nil [simp]: "spaceWidthR [] = 0"
  by (simp add: spaceWidthR_def spaces2_def spaces3_def)

lemma trimLeft_Nil [simp]: "trimLeft [] = []"
  by (simp add: trimLeft.simps)

lemma trimRight_Nil [simp]: "trimRight [] = []"
  by (simp add: trimRight.simps)

lemma length_trimLeft: "length (trimLeft s) \<le> length s"
proof (induction s rule: trimLeft.induct)
  case (1 s)
  show ?case
  proof (cases "spaceWidth s = 0")
    case True
    then show ?thesis by (simp add: trimLeft.simps)
  next
    case False
    with 1 have "length (trimLeft (drop (spaceWidth s) s)) \<le> length (drop (spaceWidth s) s)"
      by simp
    with False show ?thesis by (simp add: trimLeft.simps [of s])
  qed
qed

lemma length_trimRight: "length (trimRight s) \<le> length s"
proof (induction s rule: trimRight.induct)
  case (1 s)
  show ?case
  proof (cases "spaceWidthR s = 0")
    case True
    then show ?thesis by (simp add: trimRight.simps)
  next
    case False
    with 1 have "length (trimRight (take (length s - spaceWidthR s) s))
        \<le> length (take (length s - spaceWidthR s) s)"
      by simp
    with False show ?thesis by (simp add: trimRight.simps [of s])
  qed
qed

lemma length_TrimSpace: "length (TrimSpace s) \<le> length s"
  unfolding TrimSpace_def
  using length_trimRight [of "trimLeft s"] length_trimLeft [of s] by simp

lemma TrimSpace_Nil [simp]: "TrimSpace [] = []"
  by (simp add: TrimSpace_def)

lemma length_cutBlank_rest: "cutBlank s = (tok, Some r) \<Longrightarrow> length r < length s"
proof -
  assume a: "cutBlank s = (tok, Some r)"
  have "length (dropWhile (\<lambda>c. \<not> blank c) s) \<le> length s"
    by (rule length_dropWhile_le)
  with a show ?thesis
    by (cases "dropWhile (\<lambda>c. \<not> blank c) s") (auto simp: cutBlank_def Let_def split: if_splits)
qed

lemma length_splitFirstToken_rest: "length (snd (splitFirstToken s)) \<le> length s"
proof (cases "cutBlank (TrimSpace s)")
  case (Pair tok ro)
  show ?thesis
  proof (cases ro)
    case None
    with Pair show ?thesis by (simp add: splitFirstToken_def)
  next
    case (Some r)
    with Pair have "length r < length (TrimSpace s)"
      by (simp add: length_cutBlank_rest)
    with length_TrimSpace [of s] Pair Some show ?thesis
      by (simp add: splitFirstToken_def)
  qed
qed

text \<open>
  \<open>consumeFlags\<close> writes the spellings through the pointers \<open>short\<close> and \<open>long\<close>. The model
  takes the strings they point to and returns them, changed or not, after the remaining
  text. \<open>consumeLoop\<close> is the \<open>for\<close> loop; each round that goes on has cut at least the
  separator off the text.
\<close>

function consumeLoop :: "string \<Rightarrow> string \<Rightarrow> string \<Rightarrow> string \<times> string \<times> string" where
  "consumeLoop t short long =
     (if t = [] then (t, short, long)
      else if prefix ''--'' t then
        (if prefix ''|'' (TrimSpace (snd (splitFirstToken t)))
         then consumeLoop (TrimSpace (tl (TrimSpace (snd (splitFirstToken t)))))
                short (fst (splitFirstToken t))
         else (TrimSpace (snd (splitFirstToken t)), short, fst (splitFirstToken t)))
      else if prefix ''-'' t then
        (if prefix ''|'' (TrimSpace (snd (splitFirstToken t)))
         then consumeLoop (TrimSpace (tl (TrimSpace (snd (splitFirstToken t)))))
                (fst (splitFirstToken t)) long
         else (TrimSpace (snd (splitFirstToken t)), fst (splitFirstToken t), long))
      else (t, short, long))"
  by pat_completeness auto

lemma consumeLoop_decreases:
  assumes "prefix ''|'' (TrimSpace (snd (splitFirstToken t)))"
  shows "length (TrimSpace (tl (TrimSpace (snd (splitFirstToken t))))) < length t"
proof -
  let ?r = "TrimSpace (snd (splitFirstToken t))"
  from assms have "?r \<noteq> []" by auto
  then have "length (tl ?r) < length ?r" by (cases ?r) auto
  moreover have "length (TrimSpace (tl ?r)) \<le> length (tl ?r)"
    by (rule length_TrimSpace)
  moreover have "length ?r \<le> length (snd (splitFirstToken t))"
    by (rule length_TrimSpace)
  moreover have "length (snd (splitFirstToken t)) \<le> length t"
    by (rule length_splitFirstToken_rest)
  ultimately show ?thesis by linarith
qed

termination consumeLoop
  by (relation "measure (\<lambda>(t, short, long). length t)")
     (auto simp: consumeLoop_decreases)

declare consumeLoop.simps [simp del]

definition consumeFlags :: "string \<Rightarrow> string \<Rightarrow> string \<Rightarrow> string \<times> string \<times> string" where
  "consumeFlags t short long = consumeLoop (TrimSpace t) short long"

definition parseFlag :: "string \<Rightarrow> nat \<Rightarrow> tag_error + Flag" where
  "parseFlag text0 ln =
     (let t = TrimSpace text0 in
      if t = [] then Inl ErrFlagNoName
      else
        case consumeFlags t [] [] of
          (rest, short, long) \<Rightarrow>
            Inr \<lparr>Flag_Short = short, Flag_Long = long,
                 Flag_Description = TrimSpace rest, Flag_Line = ln\<rparr>)"

definition parseOption :: "string \<Rightarrow> nat \<Rightarrow> tag_error + Opt" where
  "parseOption text0 ln =
     (let t = TrimSpace text0 in
      if t = [] then Inl ErrOptionNoName
      else
        case consumeFlags t [] [] of
          (rest0, short, long) \<Rightarrow>
            (let rest = TrimSpace rest0 in
             case splitFirstToken rest of
               (valStr, desc) \<Rightarrow>
                 if valStr = [] then Inl ErrOptionNoValue
                 else
                   (case ParseValue valStr of
                      Inl e \<Rightarrow> Inl (ErrOptionValue e)
                    | Inr v \<Rightarrow>
                        Inr \<lparr>Option_Short = short, Option_Long = long, Option_Value = v,
                             Option_Description = TrimSpace desc, Option_Line = ln\<rparr>)))"

definition parseOperand :: "string \<Rightarrow> nat \<Rightarrow> tag_error + Operand" where
  "parseOperand text0 ln =
     (let t = TrimSpace text0 in
      if t = [] then Inl ErrOperandNoValue
      else
        case splitFirstToken t of
          (valStr, desc) \<Rightarrow>
            (case ParseValue valStr of
               Inl e \<Rightarrow> Inl (ErrOperandValue e)
             | Inr v \<Rightarrow>
                 Inr \<lparr>Operand_Value = v, Operand_Description = TrimSpace desc,
                      Operand_Line = ln\<rparr>))"

definition parseEnv :: "string \<Rightarrow> nat \<Rightarrow> tag_error + Env" where
  "parseEnv text0 ln =
     (let t = TrimSpace text0 in
      if t = [] then Inl ErrEnvNoName
      else
        case splitFirstToken t of
          (name, desc) \<Rightarrow>
            Inr \<lparr>Env_Name = name, Env_Description = TrimSpace desc, Env_Line = ln\<rparr>)"

definition parseReads :: "string \<Rightarrow> nat \<Rightarrow> tag_error + Reads" where
  "parseReads text0 ln =
     (let t = TrimSpace text0 in
      if t = [] then Inl ErrReadsNoPath
      else
        case splitFirstToken t of
          (path, desc) \<Rightarrow>
            Inr \<lparr>Reads_Path = path, Reads_Description = TrimSpace desc, Reads_Line = ln\<rparr>)"

definition parseExit :: "string \<Rightarrow> nat \<Rightarrow> tag_error + Exit" where
  "parseExit text0 ln =
     (let t = TrimSpace text0 in
      if t = [] then Inl ErrExitNoCode
      else
        case splitFirstToken t of
          (code, desc) \<Rightarrow>
            Inr \<lparr>Exit_Code = code, Exit_Description = TrimSpace desc, Exit_Line = ln\<rparr>)"

definition parseSets :: "string \<Rightarrow> nat \<Rightarrow> tag_error + Sets" where
  "parseSets text0 ln =
     (let t = TrimSpace text0 in
      if t = [] then Inl ErrSetsNoName
      else
        case splitFirstToken t of
          (name, desc) \<Rightarrow>
            Inr \<lparr>Sets_Name = name, Sets_Description = TrimSpace desc, Sets_Line = ln\<rparr>)"

definition parseWrites :: "string \<Rightarrow> nat \<Rightarrow> tag_error + Writes" where
  "parseWrites text0 ln =
     (let t = TrimSpace text0 in
      if t = [] then Inl ErrWritesNoPath
      else
        case splitFirstToken t of
          (path, desc) \<Rightarrow>
            Inr \<lparr>Writes_Path = path, Writes_Description = TrimSpace desc, Writes_Line = ln\<rparr>)"

text \<open>
  \<open>parseTag\<close> returns the tag name it was given beside the result; the model returns the
  result or the error, and the caller keeps the name.
\<close>

definition parseTag :: "string \<Rightarrow> string \<Rightarrow> nat \<Rightarrow> tag_error + tag_result" where
  "parseTag name text0 ln =
     (if name = ''flag'' then map_sum id RFlag (parseFlag text0 ln)
      else if name = ''option'' then map_sum id ROption (parseOption text0 ln)
      else if name = ''operand'' then map_sum id ROperand (parseOperand text0 ln)
      else if name = ''env'' then map_sum id REnv (parseEnv text0 ln)
      else if name = ''reads'' then map_sum id RReads (parseReads text0 ln)
      else if name = ''stdin'' then
        Inr (RStdin \<lparr>Stdin_Description = text0, Stdin_Line = ln\<rparr>)
      else if name = ''exit'' then map_sum id RExit (parseExit text0 ln)
      else if name = ''stdout'' then
        Inr (RStdout \<lparr>Stdout_Description = text0, Stdout_Line = ln\<rparr>)
      else if name = ''stderr'' then
        Inr (RStderr \<lparr>Stderr_Description = text0, Stderr_Line = ln\<rparr>)
      else if name = ''sets'' then map_sum id RSets (parseSets text0 ln)
      else if name = ''writes'' then map_sum id RWrites (parseWrites text0 ln)
      else if name = ''deprecated'' then
        Inr (RDeprecated \<lparr>Deprecated_Message = text0, Deprecated_Line = ln\<rparr>)
      else Inl (ErrUnknownTag name))"



section \<open>Line classification (parser.go)\<close>

text \<open>
  Each compiled pattern is modelled by the function that computes its submatches, as
  \<open>FindStringSubmatch\<close> returns them: \<open>None\<close> is no match. In Go's syntax \<open>\w\<close> is
  \<open>[0-9A-Za-z_]\<close>, \<open>\s\<close> is \<open>[\t\n\f\r ]\<close>, \<open>.\<close> is any character but a line feed, and
  \<open>$\<close> is the end of the text. All repetitions are greedy, and every pattern is anchored at
  the start.
\<close>

definition isWord :: "char \<Rightarrow> bool" where
  "isWord c \<longleftrightarrow>
     c \<in> set ''0123456789ABCDEFGHIJKLMNOPQRSTUVWXYZ_abcdefghijklmnopqrstuvwxyz''"

definition isWordHyphen :: "char \<Rightarrow> bool" where
  "isWordHyphen c \<longleftrightarrow> isWord c \<or> c = CHR ''-''"

definition reSpace :: "char \<Rightarrow> bool" where
  "reSpace c \<longleftrightarrow> c \<in> set [CHR 0x09, CHR 0x0A, CHR 0x0C, CHR 0x0D, CHR 0x20]"

definition noLF :: "string \<Rightarrow> bool" where
  "noLF s \<longleftrightarrow> CHR 0x0A \<notin> set s"

text \<open>\<open>^#!(.+)$\<close>\<close>

definition reShebang :: "string \<Rightarrow> string option" where
  "reShebang l =
     (case stripPrefix ''#!'' l of
        None \<Rightarrow> None
      | Some r \<Rightarrow> if r \<noteq> [] \<and> noLF r then Some r else None)"

text \<open>
  \<open>^#\?/(\w+)\s+(.+)$\<close>. The word is the longest run of word characters, since what follows
  it must be white space. The value is what follows the longest run of white space; when
  nothing follows, \<open>\s+\<close> gives its last character back to \<open>.+\<close>, and the value is that one
  white-space character.
\<close>

definition reShedocInline :: "string \<Rightarrow> (string \<times> string) option" where
  "reShedocInline l =
     (case stripPrefix ''#?/'' l of
        None \<Rightarrow> None
      | Some r \<Rightarrow>
          (let w = takeWhile isWord r;
               sp = takeWhile reSpace (dropWhile isWord r);
               v = dropWhile reSpace (dropWhile isWord r)
           in if w = [] \<or> sp = [] then None
              else if v \<noteq> [] then (if noLF v then Some (w, v) else None)
              else if 2 \<le> length sp \<and> last sp \<noteq> CHR 0x0A then Some (w, [last sp])
              else None))"

text \<open>\<open>^#\?/(\w+)\s*$\<close>\<close>

definition reShedocOpen :: "string \<Rightarrow> string option" where
  "reShedocOpen l =
     (case stripPrefix ''#?/'' l of
        None \<Rightarrow> None
      | Some r \<Rightarrow>
          if takeWhile isWord r \<noteq> [] \<and> list_all reSpace (dropWhile isWord r)
          then Some (takeWhile isWord r) else None)"

text \<open>\<open>^#@/(\w*)\s*(.*)$\<close>\<close>

definition reSheblockOpen :: "string \<Rightarrow> (string \<times> string) option" where
  "reSheblockOpen l =
     (case stripPrefix ''#@/'' l of
        None \<Rightarrow> None
      | Some r \<Rightarrow>
          (let v = dropWhile reSpace (dropWhile isWord r)
           in if noLF v then Some (takeWhile isWord r, v) else None))"

text \<open>\<open>^ # ?(.*)$\<close>: a space, the comment character, one optional space, the content.\<close>

definition reContinuation :: "string \<Rightarrow> string option" where
  "reContinuation l =
     (case stripPrefix '' #'' l of
        None \<Rightarrow> None
      | Some r \<Rightarrow>
          if noLF r then Some (if prefix '' '' r then tl r else r) else None)"

text \<open>\<open>^ ##\s*$\<close>\<close>

definition reBlockClose :: "string \<Rightarrow> bool" where
  "reBlockClose l =
     (case stripPrefix '' ##'' l of
        None \<Rightarrow> False
      | Some r \<Rightarrow> list_all reSpace r)"

text \<open>\<open>^\s*(\w[\w-]*)\s*\(\)\s*\{?\<close>: not anchored at the end.\<close>

definition reFuncParen :: "string \<Rightarrow> string option" where
  "reFuncParen l =
     (let r = dropWhile reSpace l in
      if r \<noteq> [] \<and> isWord (hd r)
           \<and> prefix ''()'' (dropWhile reSpace (dropWhile isWordHyphen (tl r)))
      then Some (hd r # takeWhile isWordHyphen (tl r)) else None)"

text \<open>\<open>^\s*function\s+(\w[\w-]*)\<close>: not anchored at the end.\<close>

definition reFuncKeyword :: "string \<Rightarrow> string option" where
  "reFuncKeyword l =
     (case stripPrefix ''function'' (dropWhile reSpace l) of
        None \<Rightarrow> None
      | Some r \<Rightarrow>
          (let r2 = dropWhile reSpace r in
           if takeWhile reSpace r \<noteq> [] \<and> r2 \<noteq> [] \<and> isWord (hd r2)
           then Some (hd r2 # takeWhile isWordHyphen (tl r2)) else None))"

definition matchFuncDecl :: "string \<Rightarrow> string" where
  "matchFuncDecl l =
     (case reFuncKeyword l of
        Some m1 \<Rightarrow> m1
      | None \<Rightarrow> (case reFuncParen l of Some m1 \<Rightarrow> m1 | None \<Rightarrow> []))"

definition parseSheblockHeader :: "string \<Rightarrow> string \<Rightarrow> Visibility \<times> string" where
  "parseSheblockHeader vis extra =
     (if vis = ''command'' then (VisibilityCommand, [])
      else if vis = ''subcommand'' then (VisibilitySubcommand, extra)
      else if vis = ''public'' then (VisibilityPublic, [])
      else if vis = ''private'' then (VisibilityPrivate, [])
      else if vis = [] then (VisibilityPublic, [])
      else (VisibilityPublic, []))"

text \<open>\<open>splitTag\<close>: \<open>None\<close> is \<open>ok = false\<close>.\<close>

definition splitTag :: "string \<Rightarrow> (string \<times> string) option" where
  "splitTag content =
     (let trimmed = TrimSpace content in
      if \<not> prefix ''@'' trimmed then None
      else
        case cutBlank (tl trimmed) of
          (tok, None) \<Rightarrow> Some (tl trimmed, [])
        | (tok, Some r) \<Rightarrow> Some (tok, TrimSpace r))"

definition joinDesc :: "string \<Rightarrow> string \<Rightarrow> string" where
  "joinDesc existing addition =
     (if existing = [] then addition else existing @ '' '' @ addition)"

fun appendTagDescription :: "tag_result \<Rightarrow> string \<Rightarrow> tag_result" where
  "appendTagDescription (RFlag v) t =
     RFlag (v\<lparr>Flag_Description := joinDesc (Flag_Description v) t\<rparr>)"
| "appendTagDescription (ROption v) t =
     ROption (v\<lparr>Option_Description := joinDesc (Option_Description v) t\<rparr>)"
| "appendTagDescription (ROperand v) t =
     ROperand (v\<lparr>Operand_Description := joinDesc (Operand_Description v) t\<rparr>)"
| "appendTagDescription (REnv v) t =
     REnv (v\<lparr>Env_Description := joinDesc (Env_Description v) t\<rparr>)"
| "appendTagDescription (RReads v) t =
     RReads (v\<lparr>Reads_Description := joinDesc (Reads_Description v) t\<rparr>)"
| "appendTagDescription (RStdin v) t =
     RStdin (v\<lparr>Stdin_Description := joinDesc (Stdin_Description v) t\<rparr>)"
| "appendTagDescription (RExit v) t =
     RExit (v\<lparr>Exit_Description := joinDesc (Exit_Description v) t\<rparr>)"
| "appendTagDescription (RStdout v) t =
     RStdout (v\<lparr>Stdout_Description := joinDesc (Stdout_Description v) t\<rparr>)"
| "appendTagDescription (RStderr v) t =
     RStderr (v\<lparr>Stderr_Description := joinDesc (Stderr_Description v) t\<rparr>)"
| "appendTagDescription (RSets v) t =
     RSets (v\<lparr>Sets_Description := joinDesc (Sets_Description v) t\<rparr>)"
| "appendTagDescription (RWrites v) t =
     RWrites (v\<lparr>Writes_Description := joinDesc (Writes_Description v) t\<rparr>)"
| "appendTagDescription (RDeprecated v) t =
     RDeprecated (v\<lparr>Deprecated_Message := joinDesc (Deprecated_Message v) t\<rparr>)"

section \<open>The document state machine (parser.go)\<close>

text \<open>
  A warning's message is either the error of a tag parser or the text
  \<open>"unknown shedoc tag: #?/" + tag\<close>.
\<close>

datatype warning_message = TagWarning tag_error | UnknownShedocTag string

record Warning =
  Warning_Line :: nat
  Warning_Message :: warning_message

record Document =
  Path :: string
  Shebang :: string
  Meta :: Meta
  Blocks :: "Block list"
  Warnings :: "Warning list"

datatype parseState = stateTop | stateShedoc | stateSheblock

text \<open>
  The parser struct, without its scanner: the lines the scanner yields are the input of
  \<open>parse\<close>. \<open>block\<close> and \<open>currentResult\<close> are \<open>None\<close> when the Go value is \<open>nil\<close>.
  \<open>applyTagToBlock\<close> dereferences \<open>p.block\<close> without a check; \<open>panicked\<close> records that it
  was \<open>nil\<close> there, where the Go program stops with a run-time panic. No function clears it.
\<close>

record parser =
  doc :: Document
  line :: nat
  state :: parseState
  shedocTag :: string
  shedocLines :: "string list"
  block :: "Block option"
  blockDesc :: "string list"
  inTags :: bool
  currentTag :: string
  currentResult :: "tag_result option"
  tagContLines :: "string list"
  panicked :: bool

definition addWarning :: "parser \<Rightarrow> warning_message \<Rightarrow> parser" where
  "addWarning p m =
     p\<lparr>doc := (doc p)\<lparr>Warnings :=
          Warnings (doc p) @ [\<lparr>Warning_Line = line p, Warning_Message = m\<rparr>]\<rparr>\<rparr>"

definition setMeta :: "parser \<Rightarrow> (Meta \<Rightarrow> Meta) \<Rightarrow> parser" where
  "setMeta p f = p\<lparr>doc := (doc p)\<lparr>Meta := f (Meta (doc p))\<rparr>\<rparr>"

definition setShedocMeta :: "parser \<Rightarrow> string \<Rightarrow> string \<Rightarrow> parser" where
  "setShedocMeta p tag v =
     (if tag = ''name'' then setMeta p (\<lambda>m. m\<lparr>Meta_Name := v\<rparr>)
      else if tag = ''version'' then setMeta p (\<lambda>m. m\<lparr>Meta_Version := v\<rparr>)
      else if tag = ''synopsis'' then setMeta p (\<lambda>m. m\<lparr>Meta_Synopsis := v\<rparr>)
      else if tag = ''description'' then setMeta p (\<lambda>m. m\<lparr>Meta_Description := v\<rparr>)
      else if tag = ''examples'' then setMeta p (\<lambda>m. m\<lparr>Meta_Examples := v\<rparr>)
      else if tag = ''section'' then setMeta p (\<lambda>m. m\<lparr>Meta_Section := v\<rparr>)
      else if tag = ''author'' then setMeta p (\<lambda>m. m\<lparr>Meta_Author := v\<rparr>)
      else if tag = ''license'' then setMeta p (\<lambda>m. m\<lparr>Meta_License := v\<rparr>)
      else addWarning p (UnknownShedocTag tag))"

text \<open>
  The \<open>switch\<close> of \<open>applyTagToBlock\<close>, on the block \<open>b\<close> that \<open>p.block\<close> points to. A result
  whose type does not fit the name leaves the block as it is.
\<close>

definition applyTag :: "string \<Rightarrow> tag_result \<Rightarrow> Block \<Rightarrow> Block" where
  "applyTag name r b =
     (if name = ''flag'' then
        (case r of RFlag v \<Rightarrow> b\<lparr>Block_Flags := Block_Flags b @ [v]\<rparr> | _ \<Rightarrow> b)
      else if name = ''option'' then
        (case r of ROption v \<Rightarrow> b\<lparr>Block_Options := Block_Options b @ [v]\<rparr> | _ \<Rightarrow> b)
      else if name = ''operand'' then
        (case r of ROperand v \<Rightarrow> b\<lparr>Block_Operands := Block_Operands b @ [v]\<rparr> | _ \<Rightarrow> b)
      else if name = ''env'' then
        (case r of REnv v \<Rightarrow> b\<lparr>Block_Env := Block_Env b @ [v]\<rparr> | _ \<Rightarrow> b)
      else if name = ''reads'' then
        (case r of RReads v \<Rightarrow> b\<lparr>Block_Reads := Block_Reads b @ [v]\<rparr> | _ \<Rightarrow> b)
      else if name = ''stdin'' then
        (case r of RStdin v \<Rightarrow> b\<lparr>Block_Stdin := Some v\<rparr> | _ \<Rightarrow> b)
      else if name = ''exit'' then
        (case r of RExit v \<Rightarrow> b\<lparr>Block_Exit := Block_Exit b @ [v]\<rparr> | _ \<Rightarrow> b)
      else if name = ''stdout'' then
        (case r of RStdout v \<Rightarrow> b\<lparr>Block_Stdout := Some v\<rparr> | _ \<Rightarrow> b)
      else if name = ''stderr'' then
        (case r of RStderr v \<Rightarrow> b\<lparr>Block_Stderr := Some v\<rparr> | _ \<Rightarrow> b)
      else if name = ''sets'' then
        (case r of RSets v \<Rightarrow> b\<lparr>Block_Sets := Block_Sets b @ [v]\<rparr> | _ \<Rightarrow> b)
      else if name = ''writes'' then
        (case r of RWrites v \<Rightarrow> b\<lparr>Block_Writes := Block_Writes b @ [v]\<rparr> | _ \<Rightarrow> b)
      else if name = ''deprecated'' then
        (case r of RDeprecated v \<Rightarrow> b\<lparr>Block_Deprecated := Some v\<rparr> | _ \<Rightarrow> b)
      else b)"

definition applyTagToBlock :: "parser \<Rightarrow> string \<Rightarrow> tag_result \<Rightarrow> parser" where
  "applyTagToBlock p name r =
     (case block p of
        None \<Rightarrow> p\<lparr>panicked := True\<rparr>
      | Some b \<Rightarrow> p\<lparr>block := Some (applyTag name r b)\<rparr>)"

definition finalizeShedoc :: "parser \<Rightarrow> parser" where
  "finalizeShedoc p =
     (let p1 = (if shedocTag p \<noteq> []
                then setShedocMeta p (shedocTag p) (Join (shedocLines p) [CHR 0x0A])
                else p)
      in p1\<lparr>shedocTag := [], shedocLines := []\<rparr>)"

definition finalizeCurrentTag :: "parser \<Rightarrow> parser" where
  "finalizeCurrentTag p =
     (case currentResult p of
        None \<Rightarrow> p\<lparr>currentTag := [], currentResult := None, tagContLines := []\<rparr>
      | Some r \<Rightarrow>
          if currentTag p = []
          then p\<lparr>currentTag := [], currentResult := None, tagContLines := []\<rparr>
          else
            (let r1 = (if 0 < length (tagContLines p)
                       then appendTagDescription r (Join (tagContLines p) '' '')
                       else r)
             in (applyTagToBlock p (currentTag p) r1)
                  \<lparr>currentTag := [], currentResult := None, tagContLines := []\<rparr>))"

definition finalizeBlock :: "parser \<Rightarrow> parser" where
  "finalizeBlock p =
     (case block p of
        None \<Rightarrow> p
      | Some b \<Rightarrow>
          (let b1 = (if 0 < length (blockDesc p)
                     then b\<lparr>Block_Description := Join (blockDesc p) [CHR 0x0A]\<rparr>
                     else b)
           in p\<lparr>doc := (doc p)\<lparr>Blocks := Blocks (doc p) @ [b1]\<rparr>, block := None\<rparr>))"

definition newBlock :: "Visibility \<Rightarrow> string \<Rightarrow> nat \<Rightarrow> Block" where
  "newBlock visibility name ln =
     \<lparr>Block_Visibility = visibility, Block_Name = name, Block_Description = [],
      Block_FunctionName = [], Block_Line = ln, Block_Flags = [], Block_Options = [],
      Block_Operands = [], Block_Env = [], Block_Reads = [], Block_Stdin = None,
      Block_Exit = [], Block_Stdout = None, Block_Stderr = None, Block_Sets = [],
      Block_Writes = [], Block_Deprecated = None\<rparr>"

text \<open>
  The last branch of \<open>handleTop\<close>: the function name goes to the last block of the document,
  in place, when that block has none.
\<close>

definition attachFunc :: "parser \<Rightarrow> string \<Rightarrow> parser" where
  "attachFunc p funcName =
     (let bs = Blocks (doc p) in
      if 0 < length bs then
        (if Block_FunctionName (bs ! (length bs - 1)) = []
         then p\<lparr>doc := (doc p)\<lparr>Blocks :=
                  bs[length bs - 1 := (bs ! (length bs - 1))\<lparr>Block_FunctionName := funcName\<rparr>]\<rparr>\<rparr>
         else p)
      else p)"

definition handleTop :: "parser \<Rightarrow> string \<Rightarrow> parser" where
  "handleTop p l =
     (case reShebang l of
        Some m1 \<Rightarrow> p\<lparr>doc := (doc p)\<lparr>Shebang := TrimSpace m1\<rparr>\<rparr>
      | None \<Rightarrow>
     (case reShedocInline l of
        Some (m1, m2) \<Rightarrow> setShedocMeta p m1 (TrimSpace m2)
      | None \<Rightarrow>
     (case reShedocOpen l of
        Some m1 \<Rightarrow> p\<lparr>state := stateShedoc, shedocTag := m1, shedocLines := []\<rparr>
      | None \<Rightarrow>
     (case reSheblockOpen l of
        Some (m1, m2) \<Rightarrow>
          (case parseSheblockHeader m1 (TrimSpace m2) of
             (visibility, name) \<Rightarrow>
               p\<lparr>state := stateSheblock,
                 block := Some (newBlock visibility name (line p)),
                 blockDesc := [], inTags := False, currentTag := [],
                 currentResult := None, tagContLines := []\<rparr>)
      | None \<Rightarrow>
          (if matchFuncDecl l \<noteq> [] then attachFunc p (matchFuncDecl l) else p)))))"

definition handleShedoc :: "parser \<Rightarrow> string \<Rightarrow> parser" where
  "handleShedoc p l =
     (if reBlockClose l then (finalizeShedoc p)\<lparr>state := stateTop\<rparr>
      else
        case reContinuation l of
          Some m1 \<Rightarrow> p\<lparr>shedocLines := shedocLines p @ [m1]\<rparr>
        | None \<Rightarrow> handleTop ((finalizeShedoc p)\<lparr>state := stateTop\<rparr>) l)"

definition handleSheblock :: "parser \<Rightarrow> string \<Rightarrow> parser" where
  "handleSheblock p l =
     (if reBlockClose l then (finalizeBlock (finalizeCurrentTag p))\<lparr>state := stateTop\<rparr>
      else
        case reContinuation l of
          None \<Rightarrow> handleTop ((finalizeBlock (finalizeCurrentTag p))\<lparr>state := stateTop\<rparr>) l
        | Some content \<Rightarrow>
            (case splitTag content of
               Some (tagName, tagText) \<Rightarrow>
                 (let p1 = (finalizeCurrentTag p)\<lparr>inTags := True\<rparr> in
                  case parseTag tagName tagText (line p1) of
                    Inl err \<Rightarrow> addWarning p1 (TagWarning err)
                  | Inr r \<Rightarrow>
                      p1\<lparr>currentTag := tagName, currentResult := Some r, tagContLines := []\<rparr>)
             | None \<Rightarrow>
                 if content = [] then
                   (if currentTag p \<noteq> [] then finalizeCurrentTag p else p)
                 else if currentTag p \<noteq> [] then
                   p\<lparr>tagContLines := tagContLines p @ [TrimSpace content]\<rparr>
                 else if \<not> inTags p then
                   p\<lparr>blockDesc := blockDesc p @ [content]\<rparr>
                 else p))"

text \<open>One round of the loop of \<open>parse\<close>: count the line, then dispatch on the state.\<close>

definition dispatch :: "parser \<Rightarrow> string \<Rightarrow> parser" where
  "dispatch p l =
     (case state p of
        stateTop \<Rightarrow> handleTop p l
      | stateShedoc \<Rightarrow> handleShedoc p l
      | stateSheblock \<Rightarrow> handleSheblock p l)"

definition step :: "parser \<Rightarrow> string \<Rightarrow> parser" where
  "step p l = dispatch (p\<lparr>line := line p + 1\<rparr>) l"

text \<open>The loop over the lines of the scanner.\<close>

definition run :: "parser \<Rightarrow> string list \<Rightarrow> parser" where
  "run p ls = foldl step p ls"

text \<open>What \<open>parse\<close> does after the loop, at the end of the input.\<close>

definition atEOF :: "parser \<Rightarrow> parser" where
  "atEOF p =
     (case state p of
        stateTop \<Rightarrow> p
      | stateShedoc \<Rightarrow> finalizeShedoc p
      | stateSheblock \<Rightarrow> finalizeBlock (finalizeCurrentTag p))"

definition parse :: "parser \<Rightarrow> string list \<Rightarrow> parser" where
  "parse p ls = atEOF (run p ls)"

definition emptyMeta :: Meta where
  "emptyMeta =
     \<lparr>Meta_Name = [], Meta_Version = [], Meta_Synopsis = [], Meta_Description = [],
      Meta_Examples = [], Meta_Section = [], Meta_Author = [], Meta_License = []\<rparr>"

definition emptyDocument :: Document where
  "emptyDocument =
     \<lparr>Path = [], Shebang = [], Meta = emptyMeta, Blocks = [], Warnings = []\<rparr>"

text \<open>The parser that \<open>ParseReader\<close> builds: every field but \<open>doc\<close> has its zero value.\<close>

definition newParser :: parser where
  "newParser =
     \<lparr>doc = emptyDocument, line = 0, state = stateTop, shedocTag = [], shedocLines = [],
      block = None, blockDesc = [], inTags = False, currentTag = [], currentResult = None,
      tagContLines = [], panicked = False\<rparr>"

text \<open>
  \<open>ParseReader\<close> returns the document and the error \<open>nil\<close>, which is \<open>None\<close> of type
  \<open>go_error option\<close> here. The
  result is \<open>None\<close> when the run panics and \<open>ParseReader\<close> does not return. The argument is
  the list of lines that the scanner yields from the reader.
\<close>

datatype go_error = ReadError string

definition ParseReader :: "string list \<Rightarrow> (Document \<times> go_error option) option" where
  "ParseReader ls =
     (let p = parse newParser ls in
      if panicked p then None else Some (doc p, None))"



section \<open>Facts about trimming\<close>

text \<open>
  \<open>spaceHead\<close> holds of the bytes a white-space rune can start with, \<open>spaceTail\<close> of the
  bytes it can end with.
\<close>

definition spaceHead :: "char \<Rightarrow> bool" where
  "spaceHead c \<longleftrightarrow> asciiSpace c \<or> c \<in> set [CHR 0xC2, CHR 0xE1, CHR 0xE2, CHR 0xE3]"

definition spaceTail :: "char \<Rightarrow> bool" where
  "spaceTail c \<longleftrightarrow> asciiSpace c \<or>
     c \<in> set [CHR 0x85, CHR 0xA0, CHR 0x80, CHR 0x81, CHR 0x82, CHR 0x83, CHR 0x84, CHR 0x86,
       CHR 0x87, CHR 0x88, CHR 0x89, CHR 0x8A, CHR 0xA8, CHR 0xA9, CHR 0xAF, CHR 0x9F]"

lemma spaceWidth_0: "s \<noteq> [] \<Longrightarrow> \<not> spaceHead (hd s) \<Longrightarrow> spaceWidth s = 0"
  by (cases s) (auto simp: spaceWidth_def spaceHead_def spaces2_def spaces3_def)


lemma spaces2_tail: "xs \<in> set spaces2 \<Longrightarrow> length xs = 2 \<and> spaceTail (last xs)"
  unfolding spaces2_def spaceTail_def set_simps insert_iff empty_iff
  by (elim disjE; simp)

lemma spaces3_tail: "xs \<in> set spaces3 \<Longrightarrow> length xs = 3 \<and> spaceTail (last xs)"
  unfolding spaces3_def spaceTail_def set_simps insert_iff empty_iff
  by (elim disjE; simp)

lemma last_drop_len: "length (drop n s) = Suc k \<Longrightarrow> last (drop n s) = last s"
proof -
  assume a: "length (drop n s) = Suc k"
  then have "n < length s" by simp
  then show ?thesis by (rule last_drop)
qed

lemma spaceWidthR_0: "s \<noteq> [] \<Longrightarrow> \<not> spaceTail (last s) \<Longrightarrow> spaceWidthR s = 0"
proof -
  assume ne: "s \<noteq> []" and nt: "\<not> spaceTail (last s)"
  have "drop (length s - 2) s \<notin> set spaces2"
  proof
    assume "drop (length s - 2) s \<in> set spaces2"
    then have "length (drop (length s - 2) s) = 2 \<and> spaceTail (last (drop (length s - 2) s))"
      by (rule spaces2_tail)
    then have "spaceTail (last s)"
      using last_drop_len [of "length s - 2" s 1] by simp
    with nt show False by simp
  qed
  moreover have "drop (length s - 3) s \<notin> set spaces3"
  proof
    assume "drop (length s - 3) s \<in> set spaces3"
    then have "length (drop (length s - 3) s) = 3 \<and> spaceTail (last (drop (length s - 3) s))"
      by (rule spaces3_tail)
    then have "spaceTail (last s)"
      using last_drop_len [of "length s - 3" s 2] by simp
    with nt show False by simp
  qed
  moreover from nt have "\<not> asciiSpace (last s)" by (simp add: spaceTail_def)
  ultimately show ?thesis by (simp add: spaceWidthR_def)
qed

lemma TrimSpace_id:
  "s \<noteq> [] \<Longrightarrow> \<not> spaceHead (hd s) \<Longrightarrow> \<not> spaceTail (last s) \<Longrightarrow> TrimSpace s = s"
  by (simp add: TrimSpace_def trimLeft.simps [of s] trimRight.simps [of s] spaceWidth_0 spaceWidthR_0)

section \<open>Value notation round trip\<close>

lemma suffix_dots_eq: "suffix ''...'' (n @ CHR ''='' # d) \<longleftrightarrow> suffix ''...'' d"
proof -
  have "prefix ''...'' (rev d @ CHR ''='' # rev n) \<longleftrightarrow> prefix ''...'' (rev d)"
    by (cases "rev d"; cases "tl (rev d)"; cases "tl (tl (rev d))") auto
  then show ?thesis
    by (simp add: suffix_to_prefix)
qed

text \<open>
  The names and defaults of the canonical shapes: a name is not empty, has no \<open>=\<close> and does
  not end with the variadic suffix; a default is not empty and does not end with the suffix.
\<close>

definition valueName :: "string \<Rightarrow> bool" where
  "valueName n \<longleftrightarrow> n \<noteq> [] \<and> CHR ''='' \<notin> set n \<and> \<not> suffix ''...'' n"

definition valueDefault :: "string \<Rightarrow> bool" where
  "valueDefault d \<longleftrightarrow> d \<noteq> [] \<and> \<not> suffix ''...'' d"

lemma ParseValue_bracketed:
  assumes "(c = CHR ''<'' \<and> e = CHR ''>'') \<or> (c = CHR ''['' \<and> e = CHR '']'')" and "inner \<noteq> []"
  shows "ParseValue (c # inner @ [e]) =
     (let required = (c = CHR ''<'');
          variadic = suffix ''...'' inner;
          inner1 = (if variadic then take (length inner - 3) inner else inner) in
      if variadic \<and> inner1 = [] then Inl (ErrEmptyNameVariadic (c # inner @ [e]))
      else
        (case IndexEq inner1 of
           None \<Rightarrow>
             Inr \<lparr>Value_Name = inner1, Value_Required = required,
                  Value_Default = [], Value_Variadic = variadic\<rparr>
         | Some idx \<Rightarrow>
             if required then Inl (ErrRequiredDefault (c # inner @ [e]))
             else if take idx inner1 = [] then Inl (ErrEmptyNameDefault (c # inner @ [e]))
             else
               Inr \<lparr>Value_Name = take idx inner1, Value_Required = required,
                    Value_Default = drop (idx + 1) inner1, Value_Variadic = variadic\<rparr>))"
proof -
  have t: "TrimSpace (c # inner @ [e]) = c # inner @ [e]"
    using assms(1) by (intro TrimSpace_id) (auto simp: spaceHead_def spaceTail_def asciiSpace_def)
  have l: "\<not> length (c # inner @ [e]) < 3"
    using assms(2) by (cases inner) auto
  have i: "take (length (c # inner @ [e]) - 2) (tl (c # inner @ [e])) = inner"
    by simp
  show ?thesis
    unfolding ParseValue_def t Let_def i using assms l
    by (auto simp del: length_append list.size split: option.splits)
qed

lemma IndexEq_None: "CHR ''='' \<notin> set n \<Longrightarrow> IndexEq n = None"
  by (simp add: IndexEq_def)

lemma IndexEq_first: "CHR ''='' \<notin> set n \<Longrightarrow> IndexEq (n @ CHR ''='' # d) = Some (length n)"
proof -
  assume a: "CHR ''='' \<notin> set n"
  then have "takeWhile (\<lambda>c. c \<noteq> CHR ''='') (n @ CHR ''='' # d) = n"
    by (induction n) auto
  then show ?thesis by (simp add: IndexEq_def)
qed

lemma suffix_dots_app: "suffix ''...'' (n @ ''...'')"
  by (simp add: suffix_def)

lemma take_dots: "take (length (n @ ''...'') - 3) (n @ ''...'') = n"
  by simp

text \<open>
  Claim C3 fails as stated for two strings of the shape \<open>[n=d]\<close>. An empty default is
  accepted and gives the same value as \<open>[n]\<close>, which \<open>formatValue\<close> writes without the
  equals sign. A default that ends with three dots is read as the variadic suffix, and
  \<open>formatValue\<close> writes the suffix before the default.
\<close>

theorem ParseValue_roundtrip_counterexample:
  "ParseValue ''[a=]'' =
     Inr \<lparr>Value_Name = ''a'', Value_Required = False, Value_Default = [], Value_Variadic = False\<rparr>
   \<and> formatValue
       \<lparr>Value_Name = ''a'', Value_Required = False, Value_Default = [], Value_Variadic = False\<rparr>
     = ''[a]''
   \<and> ParseValue ''[a=b...]'' =
     Inr \<lparr>Value_Name = ''a'', Value_Required = False, Value_Default = ''b'',
          Value_Variadic = True\<rparr>
   \<and> formatValue
       \<lparr>Value_Name = ''a'', Value_Required = False, Value_Default = ''b'', Value_Variadic = True\<rparr>
     = ''[a...=b]''"
  by code_simp

text \<open>
  Claim C3, as the code has it. For a name \<open>n\<close> and a default \<open>d\<close> that is not empty and does
  not end with three dots, \<open>ParseValue\<close> succeeds on each of the five canonical shapes
  \<open><n>\<close>, \<open>[n]\<close>, \<open>[n=d]\<close>, \<open><n...>\<close>, \<open>[n...]\<close>, with the fields the shape spells, and
  \<open>formatValue\<close> of the result is the input string again. Whatever string \<open>ParseValue\<close>
  accepts, a required value has an empty default.
\<close>

theorem ParseValue_roundtrip:
  "(valueName n \<and> valueDefault d \<longrightarrow>
      ParseValue (''<'' @ n @ ''>'') =
        Inr \<lparr>Value_Name = n, Value_Required = True, Value_Default = [], Value_Variadic = False\<rparr>
    \<and> ParseValue (''['' @ n @ '']'') =
        Inr \<lparr>Value_Name = n, Value_Required = False, Value_Default = [], Value_Variadic = False\<rparr>
    \<and> ParseValue (''['' @ n @ ''='' @ d @ '']'') =
        Inr \<lparr>Value_Name = n, Value_Required = False, Value_Default = d, Value_Variadic = False\<rparr>
    \<and> ParseValue (''<'' @ n @ ''...'' @ ''>'') =
        Inr \<lparr>Value_Name = n, Value_Required = True, Value_Default = [], Value_Variadic = True\<rparr>
    \<and> ParseValue (''['' @ n @ ''...'' @ '']'') =
        Inr \<lparr>Value_Name = n, Value_Required = False, Value_Default = [], Value_Variadic = True\<rparr>
    \<and> (\<forall>s \<in> {''<'' @ n @ ''>'', ''['' @ n @ '']'', ''['' @ n @ ''='' @ d @ '']'',
              ''<'' @ n @ ''...'' @ ''>'', ''['' @ n @ ''...'' @ '']''}.
          \<exists>v. ParseValue s = Inr v \<and> formatValue v = s))
   \<and> (\<forall>s v. ParseValue s = Inr v \<longrightarrow> Value_Required v \<longrightarrow> Value_Default v = [])"
proof -
  have inv: "\<forall>s v. ParseValue s = Inr v \<longrightarrow> Value_Required v \<longrightarrow> Value_Default v = []"
    by (auto simp: ParseValue_def Let_def split: if_splits option.splits)
  have shapes: "ParseValue (''<'' @ n @ ''>'') =
        Inr \<lparr>Value_Name = n, Value_Required = True, Value_Default = [], Value_Variadic = False\<rparr>
    \<and> ParseValue (''['' @ n @ '']'') =
        Inr \<lparr>Value_Name = n, Value_Required = False, Value_Default = [], Value_Variadic = False\<rparr>
    \<and> ParseValue (''['' @ n @ ''='' @ d @ '']'') =
        Inr \<lparr>Value_Name = n, Value_Required = False, Value_Default = d, Value_Variadic = False\<rparr>
    \<and> ParseValue (''<'' @ n @ ''...'' @ ''>'') =
        Inr \<lparr>Value_Name = n, Value_Required = True, Value_Default = [], Value_Variadic = True\<rparr>
    \<and> ParseValue (''['' @ n @ ''...'' @ '']'') =
        Inr \<lparr>Value_Name = n, Value_Required = False, Value_Default = [], Value_Variadic = True\<rparr>"
    if vn: "valueName n" and vd: "valueDefault d"
  proof -
    from vn have n: "n \<noteq> []" "CHR ''='' \<notin> set n" "\<not> suffix ''...'' n"
      by (simp_all add: valueName_def)
    from vd have d: "d \<noteq> []" "\<not> suffix ''...'' d"
      by (simp_all add: valueDefault_def)
    have 1: "ParseValue (CHR ''<'' # n @ ''>'') =
        Inr \<lparr>Value_Name = n, Value_Required = True, Value_Default = [], Value_Variadic = False\<rparr>"
      using n by (simp add: ParseValue_bracketed IndexEq_None)
    have 2: "ParseValue (CHR ''['' # n @ '']'') =
        Inr \<lparr>Value_Name = n, Value_Required = False, Value_Default = [], Value_Variadic = False\<rparr>"
      using n by (simp add: ParseValue_bracketed IndexEq_None)
    have 3: "ParseValue (CHR ''['' # (n @ CHR ''='' # d) @ '']'') =
        Inr \<lparr>Value_Name = n, Value_Required = False, Value_Default = d, Value_Variadic = False\<rparr>"
      using n d by (simp add: ParseValue_bracketed IndexEq_first suffix_dots_eq del: append_assoc append.simps)
    have 4: "ParseValue (CHR ''<'' # (n @ ''...'') @ ''>'') =
        Inr \<lparr>Value_Name = n, Value_Required = True, Value_Default = [], Value_Variadic = True\<rparr>"
      using n by (simp add: ParseValue_bracketed IndexEq_None take_dots suffix_dots_app Let_def del: append_assoc append.simps)
    have 5: "ParseValue (CHR ''['' # (n @ ''...'') @ '']'') =
        Inr \<lparr>Value_Name = n, Value_Required = False, Value_Default = [], Value_Variadic = True\<rparr>"
      using n by (simp add: ParseValue_bracketed IndexEq_None take_dots suffix_dots_app Let_def del: append_assoc append.simps)
    from 1 2 3 4 5 show ?thesis by simp
  qed
  have fmt: "\<forall>s \<in> {''<'' @ n @ ''>'', ''['' @ n @ '']'', ''['' @ n @ ''='' @ d @ '']'',
              ''<'' @ n @ ''...'' @ ''>'', ''['' @ n @ ''...'' @ '']''}.
          \<exists>v. ParseValue s = Inr v \<and> formatValue v = s"
    if vn: "valueName n" and vd: "valueDefault d"
  proof -
    from vd have "d \<noteq> []" by (simp add: valueDefault_def)
    with shapes [OF vn vd] show ?thesis
      by (simp add: formatValue_def)
  qed
  from inv shapes fmt show ?thesis by blast
qed

theorem ParseValue_roundtrip_witness:
  "ParseValue ''<file>'' =
      Inr \<lparr>Value_Name = ''file'', Value_Required = True, Value_Default = [], Value_Variadic = False\<rparr>
   \<and> ParseValue ''[file=out.txt]'' =
      Inr \<lparr>Value_Name = ''file'', Value_Required = False, Value_Default = ''out.txt'',
           Value_Variadic = False\<rparr>
   \<and> formatValue \<lparr>Value_Name = ''file'', Value_Required = False, Value_Default = ''out.txt'',
           Value_Variadic = False\<rparr> = ''[file=out.txt]''
   \<and> ParseValue ''[file...]'' =
      Inr \<lparr>Value_Name = ''file'', Value_Required = False, Value_Default = [], Value_Variadic = True\<rparr>"
proof -
  have "valueName ''file''" by (simp add: valueName_def suffix_to_prefix)
  moreover have "valueDefault ''out.txt''" by (simp add: valueDefault_def suffix_to_prefix)
  ultimately show ?thesis
    using ParseValue_roundtrip [of "''file''" "''out.txt''"] by (simp add: formatValue_def)
qed


section \<open>What each step leaves unchanged\<close>

lemma setShedocMeta_frame [simp]:
  "line (setShedocMeta p t v) = line p"
  "state (setShedocMeta p t v) = state p"
  "shedocTag (setShedocMeta p t v) = shedocTag p"
  "shedocLines (setShedocMeta p t v) = shedocLines p"
  "block (setShedocMeta p t v) = block p"
  "blockDesc (setShedocMeta p t v) = blockDesc p"
  "inTags (setShedocMeta p t v) = inTags p"
  "currentTag (setShedocMeta p t v) = currentTag p"
  "currentResult (setShedocMeta p t v) = currentResult p"
  "tagContLines (setShedocMeta p t v) = tagContLines p"
  "panicked (setShedocMeta p t v) = panicked p"
  "Blocks (doc (setShedocMeta p t v)) = Blocks (doc p)"
  "Shebang (doc (setShedocMeta p t v)) = Shebang (doc p)"
  "Path (doc (setShedocMeta p t v)) = Path (doc p)"
  by (simp_all add: setShedocMeta_def setMeta_def addWarning_def)

lemma attachFunc_frame [simp]:
  "line (attachFunc p f) = line p"
  "state (attachFunc p f) = state p"
  "shedocTag (attachFunc p f) = shedocTag p"
  "shedocLines (attachFunc p f) = shedocLines p"
  "block (attachFunc p f) = block p"
  "blockDesc (attachFunc p f) = blockDesc p"
  "inTags (attachFunc p f) = inTags p"
  "currentTag (attachFunc p f) = currentTag p"
  "currentResult (attachFunc p f) = currentResult p"
  "tagContLines (attachFunc p f) = tagContLines p"
  "panicked (attachFunc p f) = panicked p"
  "Meta (doc (attachFunc p f)) = Meta (doc p)"
  "Warnings (doc (attachFunc p f)) = Warnings (doc p)"
  "Shebang (doc (attachFunc p f)) = Shebang (doc p)"
  "Path (doc (attachFunc p f)) = Path (doc p)"
  by (simp_all add: attachFunc_def Let_def)

lemma finalizeShedoc_frame [simp]:
  "line (finalizeShedoc p) = line p"
  "state (finalizeShedoc p) = state p"
  "shedocTag (finalizeShedoc p) = []"
  "shedocLines (finalizeShedoc p) = []"
  "block (finalizeShedoc p) = block p"
  "blockDesc (finalizeShedoc p) = blockDesc p"
  "inTags (finalizeShedoc p) = inTags p"
  "currentTag (finalizeShedoc p) = currentTag p"
  "currentResult (finalizeShedoc p) = currentResult p"
  "tagContLines (finalizeShedoc p) = tagContLines p"
  "panicked (finalizeShedoc p) = panicked p"
  "Blocks (doc (finalizeShedoc p)) = Blocks (doc p)"
  "Shebang (doc (finalizeShedoc p)) = Shebang (doc p)"
  "Path (doc (finalizeShedoc p)) = Path (doc p)"
  by (simp_all add: finalizeShedoc_def Let_def)

lemma applyTagToBlock_frame [simp]:
  "doc (applyTagToBlock p n r) = doc p"
  "line (applyTagToBlock p n r) = line p"
  "state (applyTagToBlock p n r) = state p"
  "shedocTag (applyTagToBlock p n r) = shedocTag p"
  "shedocLines (applyTagToBlock p n r) = shedocLines p"
  "blockDesc (applyTagToBlock p n r) = blockDesc p"
  "inTags (applyTagToBlock p n r) = inTags p"
  by (simp_all add: applyTagToBlock_def split: option.splits)

lemma finalizeCurrentTag_frame [simp]:
  "doc (finalizeCurrentTag p) = doc p"
  "line (finalizeCurrentTag p) = line p"
  "state (finalizeCurrentTag p) = state p"
  "shedocTag (finalizeCurrentTag p) = shedocTag p"
  "shedocLines (finalizeCurrentTag p) = shedocLines p"
  "blockDesc (finalizeCurrentTag p) = blockDesc p"
  "inTags (finalizeCurrentTag p) = inTags p"
  "currentTag (finalizeCurrentTag p) = []"
  "currentResult (finalizeCurrentTag p) = None"
  "tagContLines (finalizeCurrentTag p) = []"
  by (simp_all add: finalizeCurrentTag_def Let_def split: option.splits)

lemma finalizeCurrentTag_block:
  "block p \<noteq> None \<Longrightarrow> block (finalizeCurrentTag p) \<noteq> None"
  "block p \<noteq> None \<Longrightarrow> panicked (finalizeCurrentTag p) = panicked p"
  by (auto simp: finalizeCurrentTag_def applyTagToBlock_def Let_def split: option.splits)

lemma finalizeBlock_frame [simp]:
  "line (finalizeBlock p) = line p"
  "state (finalizeBlock p) = state p"
  "shedocTag (finalizeBlock p) = shedocTag p"
  "shedocLines (finalizeBlock p) = shedocLines p"
  "block (finalizeBlock p) = None"
  "blockDesc (finalizeBlock p) = blockDesc p"
  "inTags (finalizeBlock p) = inTags p"
  "currentTag (finalizeBlock p) = currentTag p"
  "currentResult (finalizeBlock p) = currentResult p"
  "tagContLines (finalizeBlock p) = tagContLines p"
  "panicked (finalizeBlock p) = panicked p"
  "Meta (doc (finalizeBlock p)) = Meta (doc p)"
  "Warnings (doc (finalizeBlock p)) = Warnings (doc p)"
  "Shebang (doc (finalizeBlock p)) = Shebang (doc p)"
  "Path (doc (finalizeBlock p)) = Path (doc p)"
  by (simp_all add: finalizeBlock_def Let_def split: option.splits)

section \<open>The invariant of the parser\<close>

text \<open>
  In every state the loop reaches, no nil block has been dereferenced, a block is under
  construction whenever the state is \<open>stateSheblock\<close>, and no tag is pending before the first
  tag line of a block.
\<close>

definition inv :: "parser \<Rightarrow> bool" where
  "inv p \<longleftrightarrow>
     \<not> panicked p \<and> (state p = stateSheblock \<longrightarrow> block p \<noteq> None)
     \<and> (\<not> inTags p \<longrightarrow> currentTag p = [])"

lemma inv_handleTop: "inv p \<Longrightarrow> inv (handleTop p l)"
  by (auto simp: inv_def handleTop_def split: option.splits prod.splits)

lemma inv_handleShedoc: "inv p \<Longrightarrow> inv (handleShedoc p l)"
proof -
  assume a: "inv p"
  then have "inv ((finalizeShedoc p)\<lparr>state := stateTop\<rparr>)"
    by (simp add: inv_def)
  then have "inv (handleTop ((finalizeShedoc p)\<lparr>state := stateTop\<rparr>) l)"
    by (rule inv_handleTop)
  with a show ?thesis
    by (auto simp: handleShedoc_def inv_def split: option.splits)
qed

lemma inv_finalizeCurrentTag:
  "inv p \<Longrightarrow> state p = stateSheblock \<Longrightarrow> inv (finalizeCurrentTag p)"
  by (simp add: inv_def finalizeCurrentTag_block)

lemma inv_handleSheblock: "inv p \<Longrightarrow> state p = stateSheblock \<Longrightarrow> inv (handleSheblock p l)"
proof -
  assume a: "inv p" and s: "state p = stateSheblock"
  then have q: "inv (finalizeCurrentTag p)" by (rule inv_finalizeCurrentTag)
  from a s have f: "inv ((finalizeBlock (finalizeCurrentTag p))\<lparr>state := stateTop\<rparr>)"
    by (simp add: inv_def finalizeCurrentTag_block)
  show ?thesis
  proof (cases "reBlockClose l")
    case True
    with f show ?thesis by (simp add: handleSheblock_def)
  next
    case nc: False
    show ?thesis
    proof (cases "reContinuation l")
      case None
      with nc inv_handleTop [OF f] show ?thesis by (simp add: handleSheblock_def)
    next
      case (Some content)
      show ?thesis
      proof (cases "splitTag content")
        case None
        with nc Some a q show ?thesis
          by (simp add: handleSheblock_def) (simp add: inv_def)
      next
        case st: (Some nt)
        obtain n t where nt: "nt = (n, t)" by (cases nt)
        from q have "inv (case parseTag n t (line p) of
            Inl err \<Rightarrow> addWarning ((finalizeCurrentTag p)\<lparr>inTags := True\<rparr>) (TagWarning err)
          | Inr r \<Rightarrow> (finalizeCurrentTag p)\<lparr>inTags := True, currentTag := n,
               currentResult := Some r, tagContLines := []\<rparr>)"
          by (cases "parseTag n t (line p)") (simp_all add: inv_def addWarning_def)
        with nc Some st nt show ?thesis
          by (simp add: handleSheblock_def Let_def)
      qed
    qed
  qed
qed

lemma inv_step: "inv p \<Longrightarrow> inv (step p l)"
proof -
  assume a: "inv p"
  then have "inv (p\<lparr>line := line p + 1\<rparr>)" by (simp add: inv_def)
  then show ?thesis
    by (cases "state p") (simp_all add: step_def dispatch_def inv_handleTop inv_handleShedoc inv_handleSheblock)
qed

lemma inv_run: "inv p \<Longrightarrow> inv (run p ls)"
  unfolding run_def by (induction ls arbitrary: p) (simp_all add: inv_step)

lemma inv_newParser: "inv newParser"
  by (simp add: inv_def newParser_def)

lemma inv_atEOF: "inv p \<Longrightarrow> \<not> panicked (atEOF p)"
  by (cases "state p") (auto simp: atEOF_def inv_def finalizeCurrentTag_block)

lemma ParseReader_returns: "ParseReader ls = Some (doc (parse newParser ls), None)"
  using inv_atEOF [OF inv_run [OF inv_newParser, of ls]]
  by (simp add: ParseReader_def parse_def)

lemma handleTop_line [simp]: "line (handleTop p l) = line p"
  by (simp add: handleTop_def split: option.splits prod.splits)

lemma handleShedoc_line [simp]: "line (handleShedoc p l) = line p"
  by (simp add: handleShedoc_def split: option.splits)

lemma handleSheblock_line [simp]: "line (handleSheblock p l) = line p"
  by (simp add: handleSheblock_def addWarning_def Let_def split: option.splits prod.splits sum.splits)

lemma step_line [simp]: "line (step p l) = line p + 1"
  by (cases "state p") (simp_all add: step_def dispatch_def)

lemma run_snoc: "run p (ls @ [l]) = step (run p ls) l"
  by (simp add: run_def)

lemma run_line: "line (run p ls) = line p + length ls"
  by (induction ls rule: rev_induct) (simp_all add: run_snoc, simp add: run_def)

text \<open>A block holds a tag record: in the list of its kind, or as the one record of its kind.\<close>

fun recorded :: "tag_result \<Rightarrow> Block \<Rightarrow> bool" where
  "recorded (RFlag v) b \<longleftrightarrow> v \<in> set (Block_Flags b)"
| "recorded (ROption v) b \<longleftrightarrow> v \<in> set (Block_Options b)"
| "recorded (ROperand v) b \<longleftrightarrow> v \<in> set (Block_Operands b)"
| "recorded (REnv v) b \<longleftrightarrow> v \<in> set (Block_Env b)"
| "recorded (RReads v) b \<longleftrightarrow> v \<in> set (Block_Reads b)"
| "recorded (RStdin v) b \<longleftrightarrow> Block_Stdin b = Some v"
| "recorded (RExit v) b \<longleftrightarrow> v \<in> set (Block_Exit b)"
| "recorded (RStdout v) b \<longleftrightarrow> Block_Stdout b = Some v"
| "recorded (RStderr v) b \<longleftrightarrow> Block_Stderr b = Some v"
| "recorded (RSets v) b \<longleftrightarrow> v \<in> set (Block_Sets b)"
| "recorded (RWrites v) b \<longleftrightarrow> v \<in> set (Block_Writes b)"
| "recorded (RDeprecated v) b \<longleftrightarrow> Block_Deprecated b = Some v"

lemma map_sum_Inr: "map_sum id f x = Inr r \<Longrightarrow> \<exists>v. x = Inr v \<and> r = f v"
  by (cases x) auto

lemma parseTag_recorded: "parseTag n t ln = Inr r \<Longrightarrow> recorded r (applyTag n r b)"
  unfolding parseTag_def
  by (auto split: if_splits dest!: map_sum_Inr simp: applyTag_def)

section \<open>Tag lines of a documentation block\<close>

lemma handleSheblock_tag:
  assumes "\<not> reBlockClose l" "reContinuation l = Some content"
    "splitTag content = Some (name, tagText)"
  shows "handleSheblock p l =
     (case parseTag name tagText (line p) of
        Inl err \<Rightarrow> addWarning ((finalizeCurrentTag p)\<lparr>inTags := True\<rparr>) (TagWarning err)
      | Inr r \<Rightarrow> (finalizeCurrentTag p)\<lparr>inTags := True, currentTag := name,
           currentResult := Some r, tagContLines := []\<rparr>)"
  using assms by (simp add: handleSheblock_def Let_def)

lemma finalizeCurrentTag_line_upd:
  "finalizeCurrentTag (p\<lparr>line := n\<rparr>) = (finalizeCurrentTag p)\<lparr>line := n\<rparr>"
  by (simp add: finalizeCurrentTag_def applyTagToBlock_def Let_def split: option.splits)

lemma finalizeCurrentTag_pending:
  assumes "currentTag p = name" "name \<noteq> []" "currentResult p = Some r" "tagContLines p = []"
    "block p = Some b"
  shows "block (finalizeCurrentTag p) = Some (applyTag name r b)"
  using assms by (simp add: finalizeCurrentTag_def applyTagToBlock_def)

lemma parseTag_name: "parseTag n t ln = Inr r \<Longrightarrow> n \<noteq> []"
  by (auto simp: parseTag_def split: if_splits)

section \<open>Interrupts\<close>

text \<open>
  Claim C2. In the state of a metadata block or of a documentation block, a line \<open>l\<close> that is
  neither a continuation line nor a close marker is handled as a close marker \<open>c\<close> followed
  by \<open>l\<close> in the top-level state: the close marker leaves the parser in \<open>stateTop\<close>, with
  the pending tag and the accumulation finalized, and \<open>handleTop\<close> then takes \<open>l\<close> as it
  stands. The handlers do not count lines; the loop counts the interrupting line once.
\<close>

theorem interrupt_is_close_then_top:
  assumes "state p = stateShedoc \<or> state p = stateSheblock"
    and "\<not> reBlockClose l" and "reContinuation l = None" and "reBlockClose c"
  shows "state (dispatch p c) = stateTop
    \<and> dispatch p c =
        (if state p = stateShedoc then (finalizeShedoc p)\<lparr>state := stateTop\<rparr>
         else (finalizeBlock (finalizeCurrentTag p))\<lparr>state := stateTop\<rparr>)
    \<and> dispatch p l = handleTop (dispatch p c) l
    \<and> dispatch p l = dispatch (dispatch p c) l
    \<and> step p l = dispatch (step p c) l"
proof -
  have c: "dispatch q c =
        (if state q = stateShedoc then (finalizeShedoc q)\<lparr>state := stateTop\<rparr>
         else (finalizeBlock (finalizeCurrentTag q))\<lparr>state := stateTop\<rparr>)"
    if "state q = stateShedoc \<or> state q = stateSheblock" for q
    using that assms(4) by (auto simp: dispatch_def handleShedoc_def handleSheblock_def)
  have t: "state (dispatch q c) = stateTop"
    if "state q = stateShedoc \<or> state q = stateSheblock" for q
    using that by (auto simp: c)
  have l: "dispatch q l = handleTop (dispatch q c) l"
    if "state q = stateShedoc \<or> state q = stateSheblock" for q
    using that assms(2,3) by (auto simp: c) (auto simp: dispatch_def handleShedoc_def handleSheblock_def)
  have d: "dispatch (dispatch q c) l = handleTop (dispatch q c) l"
    if "state q = stateShedoc \<or> state q = stateSheblock" for q
    using t [OF that] by (simp add: dispatch_def [of "dispatch q c"])
  have s: "state (p\<lparr>line := line p + 1\<rparr>) = stateShedoc \<or> state (p\<lparr>line := line p + 1\<rparr>) = stateSheblock"
    using assms(1) by simp
  show ?thesis
    using c [OF assms(1)] t [OF assms(1)] l [OF assms(1)] d [OF assms(1)] l [OF s] d [OF s]
    by (simp add: step_def)
qed

theorem interrupt_is_close_then_top_witness:
  "run newParser [''#?/description'', '' # Some text'', ''#?/version 1.0.0'']
     = dispatch (run newParser [''#?/description'', '' # Some text'', '' ##'']) ''#?/version 1.0.0''
   \<and> state (run newParser [''#?/description'', '' # Some text'', '' ##'']) = stateTop"
proof -
  let ?p = "run newParser [''#?/description'', '' # Some text'']"
  have a: "state ?p = stateShedoc \<or> state ?p = stateSheblock" by code_simp
  have b: "\<not> reBlockClose ''#?/version 1.0.0''" by code_simp
  have c: "reContinuation ''#?/version 1.0.0'' = None" by code_simp
  have d: "reBlockClose '' ##''" by code_simp
  have e: "run newParser [''#?/description'', '' # Some text'', x] = step ?p x" for x
    by (simp add: run_def)
  have f: "state (step ?p '' ##'') = state (dispatch (?p\<lparr>line := line ?p + 1\<rparr>) '' ##'')"
    by (simp add: step_def)
  have g: "state (?p\<lparr>line := line ?p + 1\<rparr>) = stateShedoc \<or> state (?p\<lparr>line := line ?p + 1\<rparr>) = stateSheblock"
    using a by simp
  from interrupt_is_close_then_top [OF a b c d] interrupt_is_close_then_top [OF g b c d] 
  show ?thesis by (simp add: e f)
qed

section \<open>Unterminated blocks\<close>

lemma finalizeBlock_line_upd:
  "finalizeBlock (p\<lparr>line := n\<rparr>) = (finalizeBlock p)\<lparr>line := n\<rparr>"
  by (simp add: finalizeBlock_def Let_def split: option.splits)

lemma setShedocMeta_line_upd:
  "Meta (doc (setShedocMeta (p\<lparr>line := n\<rparr>) t v)) = Meta (doc (setShedocMeta p t v))"
  "map Warning_Message (Warnings (doc (setShedocMeta (p\<lparr>line := n\<rparr>) t v)))
     = map Warning_Message (Warnings (doc (setShedocMeta p t v)))"
  by (simp_all add: setShedocMeta_def setMeta_def addWarning_def)

lemma finalizeShedoc_line_upd:
  "Meta (doc (finalizeShedoc (p\<lparr>line := n\<rparr>))) = Meta (doc (finalizeShedoc p))"
  "map Warning_Message (Warnings (doc (finalizeShedoc (p\<lparr>line := n\<rparr>))))
     = map Warning_Message (Warnings (doc (finalizeShedoc p)))"
  by (simp_all add: finalizeShedoc_def Let_def setShedocMeta_line_upd)

text \<open>
  Claim C4. When the lines \<open>ls\<close> end inside a metadata block or a documentation block,
  parsing them gives the same metadata, the same blocks and the same shebang as parsing them
  with a close marker \<open>c\<close> appended, and the same warning messages; neither parse fails. For
  a documentation block the two documents are equal. For a metadata block with an unknown
  tag name the warning carries the number of the line at which the block is finalized, the
  last line of \<open>ls\<close> or the close marker.
\<close>

theorem unterminated_as_closed:
  assumes "state (run newParser ls) = stateShedoc \<or> state (run newParser ls) = stateSheblock"
    and "reBlockClose c"
    and "d1 = doc (parse newParser ls)" and "d2 = doc (parse newParser (ls @ [c]))"
  shows "ParseReader ls = Some (d1, None) \<and> ParseReader (ls @ [c]) = Some (d2, None)
    \<and> Meta d1 = Meta d2 \<and> Blocks d1 = Blocks d2 \<and> Shebang d1 = Shebang d2 \<and> Path d1 = Path d2
    \<and> map Warning_Message (Warnings d1) = map Warning_Message (Warnings d2)
    \<and> (state (run newParser ls) = stateSheblock \<longrightarrow> d1 = d2)"
proof -
  let ?p = "run newParser ls"
  have r: "ParseReader ls = Some (d1, None) \<and> ParseReader (ls @ [c]) = Some (d2, None)"
    using assms(3,4) by (simp add: ParseReader_returns)
  from assms(1) show ?thesis
  proof
    assume s: "state ?p = stateShedoc"
    have 1: "d1 = doc (finalizeShedoc ?p)"
      using s assms(3) by (simp add: parse_def atEOF_def)
    have 2: "d2 = doc (finalizeShedoc (?p\<lparr>line := line ?p + 1\<rparr>))"
      using s assms(2,4)
      by (simp add: parse_def run_snoc step_def dispatch_def handleShedoc_def atEOF_def)
    from r s show ?thesis
      by (simp add: 1 2 finalizeShedoc_line_upd)
  next
    assume s: "state ?p = stateSheblock"
    have 1: "d1 = doc (finalizeBlock (finalizeCurrentTag ?p))"
      using s assms(3) by (simp add: parse_def atEOF_def)
    have 2: "d2 = doc (finalizeBlock (finalizeCurrentTag (?p\<lparr>line := line ?p + 1\<rparr>)))"
      using s assms(2,4)
      by (simp add: parse_def run_snoc step_def dispatch_def handleSheblock_def atEOF_def)
    have "d1 = d2"
      by (simp add: 1 2 finalizeCurrentTag_line_upd finalizeBlock_line_upd)
    with r show ?thesis by simp
  qed
qed

theorem unterminated_as_closed_witness:
  "ParseReader [''#@/command'', '' # A command'', '' # @flag -v | --verbose Verbose'']
     = ParseReader [''#@/command'', '' # A command'', '' # @flag -v | --verbose Verbose'', '' ##'']
   \<and> Meta (doc (parse newParser [''#?/description'', '' # No closing marker'']))
     = Meta (doc (parse newParser [''#?/description'', '' # No closing marker'', '' ##'']))"
proof -
  let ?b = "[''#@/command'', '' # A command'', '' # @flag -v | --verbose Verbose'']"
  let ?m = "[''#?/description'', '' # No closing marker'']"
  have b: "state (run newParser ?b) = stateShedoc \<or> state (run newParser ?b) = stateSheblock"
    by code_simp
  have bs: "state (run newParser ?b) = stateSheblock"
    by code_simp
  have m: "state (run newParser ?m) = stateShedoc \<or> state (run newParser ?m) = stateSheblock"
    by code_simp
  have c: "reBlockClose '' ##''" by code_simp
  from unterminated_as_closed [OF b c refl refl] unterminated_as_closed [OF m c refl refl] bs
  show ?thesis by simp
qed

section \<open>Singular tags overwrite, collection tags append\<close>

text \<open>The tag name under which \<open>parseTag\<close> returns a result of each type.\<close>

fun tagKind :: "tag_result \<Rightarrow> string" where
  "tagKind (RFlag v) = ''flag''"
| "tagKind (ROption v) = ''option''"
| "tagKind (ROperand v) = ''operand''"
| "tagKind (REnv v) = ''env''"
| "tagKind (RReads v) = ''reads''"
| "tagKind (RStdin v) = ''stdin''"
| "tagKind (RExit v) = ''exit''"
| "tagKind (RStdout v) = ''stdout''"
| "tagKind (RStderr v) = ''stderr''"
| "tagKind (RSets v) = ''sets''"
| "tagKind (RWrites v) = ''writes''"
| "tagKind (RDeprecated v) = ''deprecated''"

lemma parseTag_kind: "parseTag n t ln = Inr r \<Longrightarrow> n = tagKind r"
  unfolding parseTag_def
  by (auto split: if_splits dest!: map_sum_Inr)

lemma tag_line_step:
  assumes "state p = stateSheblock" and "\<not> reBlockClose l"
    and "reContinuation l = Some content" and "splitTag content = Some (name, tagText)"
    and "parseTag name tagText (line p + 1) = Inr r"
  shows "step p l = (finalizeCurrentTag p)\<lparr>line := line p + 1, inTags := True,
      currentTag := name, currentResult := Some r, tagContLines := []\<rparr>"
  using assms
  by (simp add: step_def dispatch_def handleSheblock_tag finalizeCurrentTag_line_upd)

lemma tag_line_attached:
  assumes "state p = stateSheblock" and "\<not> reBlockClose l"
    and "reContinuation l = Some content" and "splitTag content = Some (name, tagText)"
    and "parseTag name tagText (line p + 1) = Inr r"
    and "block (finalizeCurrentTag p) = Some b"
  shows "block (finalizeCurrentTag (step p l)) = Some (applyTag name r b)"
    and "state (step p l) = stateSheblock"
proof -
  note s = tag_line_step [OF assms(1-5)]
  show "block (finalizeCurrentTag (step p l)) = Some (applyTag name r b)"
    by (rule finalizeCurrentTag_pending [where r = r])
       (simp_all add: s assms(6) parseTag_name [OF assms(5)])
  show "state (step p l) = stateSheblock"
    by (simp add: s assms(1))
qed

text \<open>
  Claim C6. \<open>applyTagToBlock\<close> sets the one record of \<open>stdin\<close>, \<open>stdout\<close>, \<open>stderr\<close> and
  \<open>deprecated\<close>, whatever was there, and appends to the list of \<open>flag\<close>, \<open>option\<close>,
  \<open>operand\<close>, \<open>env\<close>, \<open>reads\<close>, \<open>exit\<close>, \<open>sets\<close> and \<open>writes\<close>. Two well-formed tag lines
  \<open>l1\<close>, \<open>l2\<close> in a row inside a block are attached in this order: of two singular tags of
  one kind the second is left, two collection tags of one kind end the list, first then
  second.
\<close>

theorem singular_overwrite_collection_append:
  assumes "state p = stateSheblock" and "block (finalizeCurrentTag p) = Some b"
    and "\<not> reBlockClose l1" and "reContinuation l1 = Some content1"
    and "splitTag content1 = Some (name1, text1)"
    and "parseTag name1 text1 (line p + 1) = Inr r1"
    and "\<not> reBlockClose l2" and "reContinuation l2 = Some content2"
    and "splitTag content2 = Some (name2, text2)"
    and "parseTag name2 text2 (line p + 2) = Inr r2"
  shows "block (finalizeCurrentTag (step (step p l1) l2))
      = Some (applyTag name2 r2 (applyTag name1 r1 b))
    \<and> (\<forall>v b. applyTag ''stdin'' (RStdin v) b = b\<lparr>Block_Stdin := Some v\<rparr>)
    \<and> (\<forall>v b. applyTag ''stdout'' (RStdout v) b = b\<lparr>Block_Stdout := Some v\<rparr>)
    \<and> (\<forall>v b. applyTag ''stderr'' (RStderr v) b = b\<lparr>Block_Stderr := Some v\<rparr>)
    \<and> (\<forall>v b. applyTag ''deprecated'' (RDeprecated v) b = b\<lparr>Block_Deprecated := Some v\<rparr>)
    \<and> (\<forall>v b. applyTag ''flag'' (RFlag v) b = b\<lparr>Block_Flags := Block_Flags b @ [v]\<rparr>)
    \<and> (\<forall>v b. applyTag ''option'' (ROption v) b = b\<lparr>Block_Options := Block_Options b @ [v]\<rparr>)
    \<and> (\<forall>v b. applyTag ''operand'' (ROperand v) b = b\<lparr>Block_Operands := Block_Operands b @ [v]\<rparr>)
    \<and> (\<forall>v b. applyTag ''env'' (REnv v) b = b\<lparr>Block_Env := Block_Env b @ [v]\<rparr>)
    \<and> (\<forall>v b. applyTag ''reads'' (RReads v) b = b\<lparr>Block_Reads := Block_Reads b @ [v]\<rparr>)
    \<and> (\<forall>v b. applyTag ''exit'' (RExit v) b = b\<lparr>Block_Exit := Block_Exit b @ [v]\<rparr>)
    \<and> (\<forall>v b. applyTag ''sets'' (RSets v) b = b\<lparr>Block_Sets := Block_Sets b @ [v]\<rparr>)
    \<and> (\<forall>v b. applyTag ''writes'' (RWrites v) b = b\<lparr>Block_Writes := Block_Writes b @ [v]\<rparr>)
    \<and> (\<forall>v1 v2. r1 = RStdin v1 \<and> r2 = RStdin v2 \<longrightarrow>
          Block_Stdin (applyTag name2 r2 (applyTag name1 r1 b)) = Some v2)
    \<and> (\<forall>v1 v2. r1 = RStdout v1 \<and> r2 = RStdout v2 \<longrightarrow>
          Block_Stdout (applyTag name2 r2 (applyTag name1 r1 b)) = Some v2)
    \<and> (\<forall>v1 v2. r1 = RStderr v1 \<and> r2 = RStderr v2 \<longrightarrow>
          Block_Stderr (applyTag name2 r2 (applyTag name1 r1 b)) = Some v2)
    \<and> (\<forall>v1 v2. r1 = RDeprecated v1 \<and> r2 = RDeprecated v2 \<longrightarrow>
          Block_Deprecated (applyTag name2 r2 (applyTag name1 r1 b)) = Some v2)
    \<and> (\<forall>v1 v2. r1 = RFlag v1 \<and> r2 = RFlag v2 \<longrightarrow>
          Block_Flags (applyTag name2 r2 (applyTag name1 r1 b)) = Block_Flags b @ [v1, v2])
    \<and> (\<forall>v1 v2. r1 = ROption v1 \<and> r2 = ROption v2 \<longrightarrow>
          Block_Options (applyTag name2 r2 (applyTag name1 r1 b)) = Block_Options b @ [v1, v2])
    \<and> (\<forall>v1 v2. r1 = ROperand v1 \<and> r2 = ROperand v2 \<longrightarrow>
          Block_Operands (applyTag name2 r2 (applyTag name1 r1 b)) = Block_Operands b @ [v1, v2])
    \<and> (\<forall>v1 v2. r1 = REnv v1 \<and> r2 = REnv v2 \<longrightarrow>
          Block_Env (applyTag name2 r2 (applyTag name1 r1 b)) = Block_Env b @ [v1, v2])
    \<and> (\<forall>v1 v2. r1 = RReads v1 \<and> r2 = RReads v2 \<longrightarrow>
          Block_Reads (applyTag name2 r2 (applyTag name1 r1 b)) = Block_Reads b @ [v1, v2])
    \<and> (\<forall>v1 v2. r1 = RExit v1 \<and> r2 = RExit v2 \<longrightarrow>
          Block_Exit (applyTag name2 r2 (applyTag name1 r1 b)) = Block_Exit b @ [v1, v2])
    \<and> (\<forall>v1 v2. r1 = RSets v1 \<and> r2 = RSets v2 \<longrightarrow>
          Block_Sets (applyTag name2 r2 (applyTag name1 r1 b)) = Block_Sets b @ [v1, v2])
    \<and> (\<forall>v1 v2. r1 = RWrites v1 \<and> r2 = RWrites v2 \<longrightarrow>
          Block_Writes (applyTag name2 r2 (applyTag name1 r1 b)) = Block_Writes b @ [v1, v2])"
proof -
  have 1: "block (finalizeCurrentTag (step p l1)) = Some (applyTag name1 r1 b)"
    and s1: "state (step p l1) = stateSheblock"
    using tag_line_attached [OF assms(1,3,4,5,6,2)] by simp_all
  have "parseTag name2 text2 (line (step p l1) + 1) = Inr r2"
    using assms(10) by simp
  from tag_line_attached(1) [OF s1 assms(7,8,9) this 1]
  have two: "block (finalizeCurrentTag (step (step p l1) l2))
      = Some (applyTag name2 r2 (applyTag name1 r1 b))" .
  have eqs: "applyTag ''stdin'' (RStdin v1) c = c\<lparr>Block_Stdin := Some v1\<rparr>"
    "applyTag ''stdout'' (RStdout v2) c = c\<lparr>Block_Stdout := Some v2\<rparr>"
    "applyTag ''stderr'' (RStderr v3) c = c\<lparr>Block_Stderr := Some v3\<rparr>"
    "applyTag ''deprecated'' (RDeprecated v4) c = c\<lparr>Block_Deprecated := Some v4\<rparr>"
    "applyTag ''flag'' (RFlag v5) c = c\<lparr>Block_Flags := Block_Flags c @ [v5]\<rparr>"
    "applyTag ''option'' (ROption v6) c = c\<lparr>Block_Options := Block_Options c @ [v6]\<rparr>"
    "applyTag ''operand'' (ROperand v7) c = c\<lparr>Block_Operands := Block_Operands c @ [v7]\<rparr>"
    "applyTag ''env'' (REnv v8) c = c\<lparr>Block_Env := Block_Env c @ [v8]\<rparr>"
    "applyTag ''reads'' (RReads v9) c = c\<lparr>Block_Reads := Block_Reads c @ [v9]\<rparr>"
    "applyTag ''exit'' (RExit v10) c = c\<lparr>Block_Exit := Block_Exit c @ [v10]\<rparr>"
    "applyTag ''sets'' (RSets v11) c = c\<lparr>Block_Sets := Block_Sets c @ [v11]\<rparr>"
    "applyTag ''writes'' (RWrites v12) c = c\<lparr>Block_Writes := Block_Writes c @ [v12]\<rparr>"
    for v1 v2 v3 v4 v5 v6 v7 v8 v9 v10 v11 v12 c
    by (simp_all add: applyTag_def)
  have n1: "name1 = tagKind r1" and n2: "name2 = tagKind r2"
    using assms(6,10) by (simp_all add: parseTag_kind)
  have pairs:
    "r1 = RStdin a1 \<and> r2 = RStdin a2 \<longrightarrow>
          Block_Stdin (applyTag name2 r2 (applyTag name1 r1 b)) = Some a2"
    "r1 = RStdout b1 \<and> r2 = RStdout b2 \<longrightarrow>
          Block_Stdout (applyTag name2 r2 (applyTag name1 r1 b)) = Some b2"
    "r1 = RStderr c1 \<and> r2 = RStderr c2 \<longrightarrow>
          Block_Stderr (applyTag name2 r2 (applyTag name1 r1 b)) = Some c2"
    "r1 = RDeprecated d1 \<and> r2 = RDeprecated d2 \<longrightarrow>
          Block_Deprecated (applyTag name2 r2 (applyTag name1 r1 b)) = Some d2"
    "r1 = RFlag e1 \<and> r2 = RFlag e2 \<longrightarrow>
          Block_Flags (applyTag name2 r2 (applyTag name1 r1 b)) = Block_Flags b @ [e1, e2]"
    "r1 = ROption f1 \<and> r2 = ROption f2 \<longrightarrow>
          Block_Options (applyTag name2 r2 (applyTag name1 r1 b)) = Block_Options b @ [f1, f2]"
    "r1 = ROperand g1 \<and> r2 = ROperand g2 \<longrightarrow>
          Block_Operands (applyTag name2 r2 (applyTag name1 r1 b)) = Block_Operands b @ [g1, g2]"
    "r1 = REnv h1 \<and> r2 = REnv h2 \<longrightarrow>
          Block_Env (applyTag name2 r2 (applyTag name1 r1 b)) = Block_Env b @ [h1, h2]"
    "r1 = RReads i1 \<and> r2 = RReads i2 \<longrightarrow>
          Block_Reads (applyTag name2 r2 (applyTag name1 r1 b)) = Block_Reads b @ [i1, i2]"
    "r1 = RExit j1 \<and> r2 = RExit j2 \<longrightarrow>
          Block_Exit (applyTag name2 r2 (applyTag name1 r1 b)) = Block_Exit b @ [j1, j2]"
    "r1 = RSets k1 \<and> r2 = RSets k2 \<longrightarrow>
          Block_Sets (applyTag name2 r2 (applyTag name1 r1 b)) = Block_Sets b @ [k1, k2]"
    "r1 = RWrites m1 \<and> r2 = RWrites m2 \<longrightarrow>
          Block_Writes (applyTag name2 r2 (applyTag name1 r1 b)) = Block_Writes b @ [m1, m2]"
    for a1 a2 b1 b2 c1 c2 d1 d2 e1 e2 f1 f2 g1 g2 h1 h2 i1 i2 j1 j2 k1 k2 m1 m2
    using n1 n2 by (simp_all add: eqs)
  from two eqs pairs show ?thesis by blast
qed


theorem singular_overwrite_collection_append_witness:
  "map_option Block_Stdout
     (block (finalizeCurrentTag
        (run newParser [''#@/command'', '' # @stdout first'', '' # @stdout second''])))
   = Some (Some \<lparr>Stdout_Description = ''second'', Stdout_Line = 3\<rparr>)"
proof -
  let ?p = "run newParser [''#@/command'']"
  have h1: "state ?p = stateSheblock" by code_simp
  have h2: "block (finalizeCurrentTag ?p) = Some (newBlock VisibilityCommand [] 1)" by code_simp
  have h3: "\<not> reBlockClose '' # @stdout first''" by code_simp
  have h4: "reContinuation '' # @stdout first'' = Some ''@stdout first''" by code_simp
  have h5: "splitTag ''@stdout first'' = Some (''stdout'', ''first'')" by code_simp
  have h6: "parseTag ''stdout'' ''first'' (line ?p + 1)
      = Inr (RStdout \<lparr>Stdout_Description = ''first'', Stdout_Line = 2\<rparr>)" by code_simp
  have h7: "\<not> reBlockClose '' # @stdout second''" by code_simp
  have h8: "reContinuation '' # @stdout second'' = Some ''@stdout second''" by code_simp
  have h9: "splitTag ''@stdout second'' = Some (''stdout'', ''second'')" by code_simp
  have h10: "parseTag ''stdout'' ''second'' (line ?p + 2)
      = Inr (RStdout \<lparr>Stdout_Description = ''second'', Stdout_Line = 3\<rparr>)" by code_simp
  have r: "run newParser [''#@/command'', '' # @stdout first'', '' # @stdout second'']
      = step (step ?p '' # @stdout first'') '' # @stdout second''"
    by (simp add: run_def)
  from singular_overwrite_collection_append [OF h1 h2 h3 h4 h5 h6 h7 h8 h9 h10]
  show ?thesis by (simp add: r)
qed

section \<open>A flag tag without a flag spelling\<close>

text \<open>
  Claim C7 says that \<open>parseFlag\<close> fails whenever the tag text holds no flag spelling. The
  code rejects only the empty text. A text without a spelling is accepted: nothing is
  consumed, both spellings stay empty and the whole text is the description, so the tag
  line gives a flag record and no warning.
\<close>

theorem parseFlag_without_spelling:
  "parseFlag ''verbose output'' 1 =
     Inr \<lparr>Flag_Short = [], Flag_Long = [], Flag_Description = ''verbose output'', Flag_Line = 1\<rparr>
   \<and> map Block_Flags
       (Blocks (doc (parse newParser [''#@/command'', '' # @flag verbose output'', '' ##''])))
     = [[\<lparr>Flag_Short = [], Flag_Long = [], Flag_Description = ''verbose output'',
           Flag_Line = 2\<rparr>]]
   \<and> Warnings (doc (parse newParser [''#@/command'', '' # @flag verbose output'', '' ##'']))
     = []
   \<and> parseFlag [] 1 = Inl ErrFlagNoName"
  by code_simp

section \<open>Blank and stray continuation lines\<close>

lemma splitTag_Nil [simp]: "splitTag [] = None"
  by (simp add: splitTag_def)

lemma inv_currentTag: "inv p \<Longrightarrow> \<not> inTags p \<Longrightarrow> currentTag p = []"
  by (simp add: inv_def)

text \<open>
  Claim C10. Inside a documentation block, a blank continuation line (the prefix alone, with
  or without its optional space) before any tag line changes nothing but the line count: no
  empty line goes to the description. After the first tag line, while no tag is pending, a
  continuation line with content that is not a tag line changes nothing but the line count
  either.
\<close>

theorem blank_and_stray_lines_dropped:
  assumes "p = run newParser ls" and "state p = stateSheblock"
  shows "(\<not> inTags p \<longrightarrow>
        run newParser (ls @ ['' #'']) = p\<lparr>line := line p + 1\<rparr>
        \<and> run newParser (ls @ ['' # '']) = p\<lparr>line := line p + 1\<rparr>
        \<and> blockDesc (run newParser (ls @ ['' #''])) = blockDesc p
        \<and> blockDesc (run newParser (ls @ ['' # ''])) = blockDesc p)
    \<and> (inTags p \<and> currentTag p = [] \<and> \<not> reBlockClose l \<and> reContinuation l = Some content
         \<and> content \<noteq> [] \<and> splitTag content = None \<longrightarrow>
        run newParser (ls @ [l]) = p\<lparr>line := line p + 1\<rparr>)"
proof -
  have c1: "\<not> reBlockClose '' #''" "reContinuation '' #'' = Some []"
    by code_simp+
  have c2: "\<not> reBlockClose '' # ''" "reContinuation '' # '' = Some []"
    by code_simp+
  have i: "inv p" using assms(1) by (simp add: inv_run inv_newParser)
  have blank: "run newParser (ls @ [x]) = p\<lparr>line := line p + 1\<rparr>"
    if "\<not> inTags p" and "\<not> reBlockClose x" and "reContinuation x = Some []" for x
    using that assms inv_currentTag [OF i]
    by (simp add: run_snoc step_def dispatch_def handleSheblock_def)
  have stray: "run newParser (ls @ [l]) = p\<lparr>line := line p + 1\<rparr>"
    if "inTags p" and "currentTag p = []" and "\<not> reBlockClose l"
      and "reContinuation l = Some content" and "content \<noteq> []" and "splitTag content = None"
    using that assms
    by (simp add: run_snoc step_def dispatch_def handleSheblock_def)
  from blank [OF _ c1] blank [OF _ c2] stray show ?thesis
    by simp
qed

theorem blank_and_stray_lines_dropped_witness:
  "run newParser [''#@/command'', '' # First line'', '' #'']
     = (run newParser [''#@/command'', '' # First line''])\<lparr>line := 3\<rparr>
   \<and> run newParser [''#@/command'', '' # @bogus'', '' # stray text'']
     = (run newParser [''#@/command'', '' # @bogus''])\<lparr>line := 3\<rparr>"
proof -
  let ?a = "[''#@/command'', '' # First line'']"
  let ?b = "[''#@/command'', '' # @bogus'']"
  have a1: "state (run newParser ?a) = stateSheblock" by code_simp
  have a2: "\<not> inTags (run newParser ?a)" by code_simp
  have a3: "line (run newParser ?a) = 2" by (simp add: run_line newParser_def)
  have b1: "state (run newParser ?b) = stateSheblock" by code_simp
  have b2: "inTags (run newParser ?b) \<and> currentTag (run newParser ?b) = []
      \<and> \<not> reBlockClose '' # stray text''
      \<and> reContinuation '' # stray text'' = Some ''stray text'' \<and> ''stray text'' \<noteq> []
      \<and> splitTag ''stray text'' = None" by code_simp
  have b3: "line (run newParser ?b) = 2" by (simp add: run_line newParser_def)
  from blank_and_stray_lines_dropped [OF refl a1] a2 a3
  have "run newParser (?a @ ['' #'']) = (run newParser ?a)\<lparr>line := 3\<rparr>" by simp
  moreover from blank_and_stray_lines_dropped [OF refl b1, of "'' # stray text''" "''stray text''"] b2 b3
  have "run newParser (?b @ ['' # stray text'']) = (run newParser ?b)\<lparr>line := 3\<rparr>" by simp
  ultimately show ?thesis by simp
qed

section \<open>Function association\<close>

text \<open>
  \<open>keeps bs bs'\<close>: every block of \<open>bs\<close> that has a function name is the same block, at the
  same position, in \<open>bs'\<close>.
\<close>

definition keeps :: "Block list \<Rightarrow> Block list \<Rightarrow> bool" where
  "keeps bs bs' \<longleftrightarrow>
     (\<forall>i < length bs. Block_FunctionName (bs ! i) \<noteq> [] \<longrightarrow> i < length bs' \<and> bs' ! i = bs ! i)"

lemma keeps_refl [simp]: "keeps bs bs"
  by (simp add: keeps_def)

lemma keeps_trans: "keeps bs bs' \<Longrightarrow> keeps bs' bs'' \<Longrightarrow> keeps bs bs''"
  by (auto simp: keeps_def)

lemma keeps_append [simp]: "keeps bs (bs @ cs)"
  by (simp add: keeps_def nth_append)

lemma keeps_attachFunc: "keeps (Blocks (doc p)) (Blocks (doc (attachFunc p f)))"
  by (auto simp: keeps_def attachFunc_def Let_def nth_list_update)

lemma keeps_finalizeBlock: "keeps (Blocks (doc p)) (Blocks (doc (finalizeBlock p)))"
  by (simp add: finalizeBlock_def Let_def split: option.splits)

lemma keeps_handleTop: "keeps (Blocks (doc p)) (Blocks (doc (handleTop p l)))"
  by (simp add: handleTop_def keeps_attachFunc split: option.splits prod.splits)

lemma keeps_handleShedoc: "keeps (Blocks (doc p)) (Blocks (doc (handleShedoc p l)))"
proof -
  have "keeps (Blocks (doc ((finalizeShedoc p)\<lparr>state := stateTop\<rparr>)))
      (Blocks (doc (handleTop ((finalizeShedoc p)\<lparr>state := stateTop\<rparr>) l)))"
    by (rule keeps_handleTop)
  then show ?thesis
    by (simp add: handleShedoc_def split: option.splits)
qed

lemma keeps_handleSheblock: "keeps (Blocks (doc p)) (Blocks (doc (handleSheblock p l)))"
proof -
  let ?q = "(finalizeBlock (finalizeCurrentTag p))\<lparr>state := stateTop\<rparr>"
  have f: "keeps (Blocks (doc p)) (Blocks (doc ?q))"
    using keeps_finalizeBlock [of "finalizeCurrentTag p"] by simp
  have "keeps (Blocks (doc ?q)) (Blocks (doc (handleTop ?q l)))"
    by (rule keeps_handleTop)
  with f have "keeps (Blocks (doc p)) (Blocks (doc (handleTop ?q l)))"
    by (rule keeps_trans)
  with f show ?thesis
    by (simp add: handleSheblock_def addWarning_def Let_def
        split: option.splits prod.splits sum.splits)
qed

lemma keeps_step: "keeps (Blocks (doc p)) (Blocks (doc (step p l)))"
proof (cases "state p")
  case stateTop
  then show ?thesis
    using keeps_handleTop [of "p\<lparr>line := line p + 1\<rparr>" l] by (simp add: step_def dispatch_def)
next
  case stateShedoc
  then show ?thesis
    using keeps_handleShedoc [of "p\<lparr>line := line p + 1\<rparr>" l] by (simp add: step_def dispatch_def)
next
  case stateSheblock
  then show ?thesis
    using keeps_handleSheblock [of "p\<lparr>line := line p + 1\<rparr>" l] by (simp add: step_def dispatch_def)
qed

lemma keeps_run: "keeps (Blocks (doc p)) (Blocks (doc (run p ls)))"
proof (induction ls rule: rev_induct)
  case Nil
  show ?case by (simp add: run_def)
next
  case (snoc l ls)
  from snoc keeps_step [of "run p ls" l] show ?case
    unfolding run_snoc by (rule keeps_trans)
qed

lemma keeps_atEOF: "keeps (Blocks (doc p)) (Blocks (doc (atEOF p)))"
  using keeps_finalizeBlock [of "finalizeCurrentTag p"]
  by (cases "state p") (simp_all add: atEOF_def)

lemma run_append: "run p (ls @ ls') = run (run p ls) ls'"
  by (simp add: run_def)

text \<open>A block under construction has no function name.\<close>

lemma applyTag_FunctionName [simp]:
  "Block_FunctionName (applyTag n r b) = Block_FunctionName b"
  by (cases r) (simp_all add: applyTag_def)

definition unbound :: "parser \<Rightarrow> bool" where
  "unbound p \<longleftrightarrow> (\<forall>b. block p = Some b \<longrightarrow> Block_FunctionName b = [])"

lemma unbound_finalizeCurrentTag: "unbound p \<Longrightarrow> unbound (finalizeCurrentTag p)"
  by (auto simp: unbound_def finalizeCurrentTag_def applyTagToBlock_def Let_def
      split: option.splits if_splits)

lemma unbound_handleTop: "unbound p \<Longrightarrow> unbound (handleTop p l)"
  by (auto simp: unbound_def handleTop_def newBlock_def split: option.splits prod.splits)

lemma unbound_Top: "unbound ((finalizeBlock p)\<lparr>state := stateTop\<rparr>)"
  by (simp add: unbound_def)

lemma unbound_handleShedoc: "unbound p \<Longrightarrow> unbound (handleShedoc p l)"
proof -
  assume a: "unbound p"
  then have "unbound ((finalizeShedoc p)\<lparr>state := stateTop\<rparr>)" by (simp add: unbound_def)
  then have "unbound (handleTop ((finalizeShedoc p)\<lparr>state := stateTop\<rparr>) l)"
    by (rule unbound_handleTop)
  with a show ?thesis
    by (auto simp: handleShedoc_def unbound_def split: option.splits)
qed

lemma unbound_handleSheblock: "unbound p \<Longrightarrow> unbound (handleSheblock p l)"
proof -
  assume a: "unbound p"
  then have q: "unbound (finalizeCurrentTag p)" by (rule unbound_finalizeCurrentTag)
  have t: "unbound (handleTop ((finalizeBlock (finalizeCurrentTag p))\<lparr>state := stateTop\<rparr>) l)"
    using unbound_Top by (rule unbound_handleTop)
  show ?thesis
  proof (cases "reBlockClose l")
    case True
    then show ?thesis by (simp add: handleSheblock_def unbound_Top)
  next
    case nc: False
    show ?thesis
    proof (cases "reContinuation l")
      case None
      with nc t show ?thesis by (simp add: handleSheblock_def)
    next
      case (Some content)
      show ?thesis
      proof (cases "splitTag content")
        case None
        with nc Some a q show ?thesis
          by (simp add: handleSheblock_def) (simp add: unbound_def)
      next
        case st: (Some nt)
        obtain n t where nt: "nt = (n, t)" by (cases nt)
        from q have "unbound (case parseTag n t (line p) of
            Inl err \<Rightarrow> addWarning ((finalizeCurrentTag p)\<lparr>inTags := True\<rparr>) (TagWarning err)
          | Inr r \<Rightarrow> (finalizeCurrentTag p)\<lparr>inTags := True, currentTag := n,
               currentResult := Some r, tagContLines := []\<rparr>)"
          by (cases "parseTag n t (line p)") (simp_all add: unbound_def addWarning_def)
        with nc Some st nt show ?thesis
          by (simp add: handleSheblock_def Let_def)
      qed
    qed
  qed
qed

lemma unbound_step: "unbound p \<Longrightarrow> unbound (step p l)"
proof -
  assume a: "unbound p"
  then have "unbound (p\<lparr>line := line p + 1\<rparr>)" by (simp add: unbound_def)
  then show ?thesis
    by (cases "state p")
       (simp_all add: step_def dispatch_def unbound_handleTop unbound_handleShedoc
          unbound_handleSheblock)
qed

lemma unbound_run: "unbound p \<Longrightarrow> unbound (run p ls)"
  unfolding run_def by (induction ls arbitrary: p) (simp_all add: unbound_step)

lemma unbound_newParser: "unbound newParser"
  by (simp add: unbound_def newParser_def)

text \<open>A line that declares a function matches none of the earlier patterns of \<open>handleTop\<close>.\<close>

lemma funcDecl_no_hash:
  assumes "matchFuncDecl l \<noteq> []"
  shows "\<not> prefix ''#'' l"
proof
  assume "prefix ''#'' l"
  then obtain r where l: "l = CHR ''#'' # r" by (cases l) auto
  have "dropWhile reSpace l = l" by (simp add: l reSpace_def)
  then have "reFuncKeyword l = None" "reFuncParen l = None"
    by (simp_all add: reFuncKeyword_def reFuncParen_def stripPrefix_def l isWord_def)
  with assms show False by (simp add: matchFuncDecl_def)
qed

lemma handleTop_funcDecl:
  assumes "matchFuncDecl l \<noteq> []"
  shows "handleTop p l = attachFunc p (matchFuncDecl l)"
proof -
  from assms have "\<not> prefix ''#'' l" by (rule funcDecl_no_hash)
  then have "stripPrefix ''#!'' l = None" "stripPrefix ''#?/'' l = None"
    "stripPrefix ''#@/'' l = None"
    by (cases l; simp add: stripPrefix_def)+
  then have "reShebang l = None" "reShedocInline l = None" "reShedocOpen l = None"
    "reSheblockOpen l = None"
    by (simp_all add: reShebang_def reShedocInline_def reShedocOpen_def reSheblockOpen_def)
  with assms show ?thesis by (simp add: handleTop_def)
qed


lemma funcDecl_no_continuation:
  assumes "matchFuncDecl l \<noteq> []"
  shows "reContinuation l = None" and "\<not> reBlockClose l"
proof -
  have np: "\<not> prefix '' #'' l"
  proof
    assume "prefix '' #'' l"
    then obtain r where l: "l = CHR '' '' # CHR ''#'' # r"
      by (cases l; cases "tl l") auto
    have "dropWhile reSpace l = CHR ''#'' # r" by (simp add: l reSpace_def)
    then have "reFuncKeyword l = None" "reFuncParen l = None"
      by (simp_all add: reFuncKeyword_def reFuncParen_def stripPrefix_def isWord_def)
    with assms show False by (simp add: matchFuncDecl_def)
  qed
  then show "reContinuation l = None"
    by (simp add: reContinuation_def stripPrefix_def)
  from np have "\<not> prefix '' ##'' l"
    by (cases l; cases "tl l") auto
  then show "\<not> reBlockClose l"
    by (simp add: reBlockClose_def stripPrefix_def)
qed

lemma attachFunc_snoc:
  "Blocks (doc p) = bs @ [b] \<Longrightarrow>
   Blocks (doc (attachFunc p f)) =
     bs @ [if Block_FunctionName b = [] then b\<lparr>Block_FunctionName := f\<rparr> else b]"
  by (simp add: attachFunc_def Let_def)

lemma finalize_appends:
  assumes "inv p" and "unbound p" and "state p = stateSheblock"
  shows "\<exists>b. Blocks (doc (finalizeBlock (finalizeCurrentTag p))) = Blocks (doc p) @ [b]
    \<and> Block_FunctionName b = []"
proof -
  from assms(1,3) obtain b where b: "block (finalizeCurrentTag p) = Some b"
    using finalizeCurrentTag_block(1) [of p] by (auto simp: inv_def)
  from assms(2) have "unbound (finalizeCurrentTag p)" by (rule unbound_finalizeCurrentTag)
  with b have "Block_FunctionName b = []" by (simp add: unbound_def)
  with b show ?thesis
    by (simp add: finalizeBlock_def Let_def)
qed

text \<open>A line that \<open>handleTop\<close> passes over: it matches none of its patterns.\<close>

definition inert :: "string \<Rightarrow> bool" where
  "inert l \<longleftrightarrow>
     reShebang l = None \<and> reShedocInline l = None \<and> reShedocOpen l = None
     \<and> reSheblockOpen l = None \<and> matchFuncDecl l = []"

text \<open>
  Claim C5 fails as stated: the block below is closed, the next line is not a declaration,
  and the declaration on the line after that still gives the block its function name.
\<close>

theorem function_binding_counterexample:
  "matchFuncDecl ''echo hi'' = []
   \<and> map Block_FunctionName
       (Blocks (doc (parse newParser [''#@/public'', '' # Doc'', '' ##'', ''echo hi'', ''foo() {''])))
     = [''foo'']
   \<and> ParseReader [''#@/public'', '' # Doc'', '' ##'', ''echo hi'', ''foo() {'']
     = Some (doc (parse newParser [''#@/public'', '' # Doc'', '' ##'', ''echo hi'', ''foo() {'']),
         None)"
  by code_simp

text \<open>
  Claim C5, as the code has it. The function name goes to the last finalized block whenever
  a declaration line is handled at top level and that block has no name yet, whether the
  line comes right after the block or after inert lines, which leave the parser as it is. A
  block that is closed, or interrupted, by the line before a declaration gets its name.
  A block that has a name keeps it, at its position, to the end of the parse.
\<close>

theorem function_binds_last_block:
  assumes "p = run newParser ls" and "f = matchFuncDecl l" and "f \<noteq> []"
  shows "(state p = stateTop \<longrightarrow>
        (\<forall>bs b. Blocks (doc p) = bs @ [b] \<longrightarrow>
           Blocks (doc (run newParser (ls @ [l]))) =
             bs @ [if Block_FunctionName b = [] then b\<lparr>Block_FunctionName := f\<rparr> else b]))
    \<and> (state p = stateSheblock \<longrightarrow>
        (\<exists>b. Blocks (doc (run newParser (ls @ [l]))) = Blocks (doc p) @ [b]
           \<and> Block_FunctionName b = f)
        \<and> (\<forall>c. reBlockClose c \<longrightarrow>
           (\<exists>b. Blocks (doc (run newParser (ls @ [c, l]))) = Blocks (doc p) @ [b]
              \<and> Block_FunctionName b = f)))
    \<and> (\<forall>l'. state p = stateTop \<and> inert l' \<longrightarrow>
          run newParser (ls @ [l']) = p\<lparr>line := line p + 1\<rparr>)
    \<and> (\<forall>i ls'. i < length (Blocks (doc p)) \<and> Block_FunctionName (Blocks (doc p) ! i) \<noteq> [] \<longrightarrow>
          i < length (Blocks (doc (parse newParser (ls @ ls'))))
          \<and> Blocks (doc (parse newParser (ls @ ls'))) ! i = Blocks (doc p) ! i)"
proof -
  have ip: "inv p" and up: "unbound p"
    using assms(1) by (simp_all add: inv_run inv_newParser unbound_run unbound_newParser)
  have m: "matchFuncDecl l \<noteq> []" using assms(2,3) by simp
  have top: "Blocks (doc (run newParser (ls @ [l]))) =
             bs @ [if Block_FunctionName b = [] then b\<lparr>Block_FunctionName := f\<rparr> else b]"
    if "state p = stateTop" and "Blocks (doc p) = bs @ [b]" for bs b
  proof -
    have "run newParser (ls @ [l]) = attachFunc (p\<lparr>line := line p + 1\<rparr>) f"
      using that(1) assms(1,2) m by (simp add: run_snoc step_def dispatch_def handleTop_funcDecl)
    with that(2) show ?thesis by (simp add: attachFunc_snoc)
  qed
  have blk: "\<exists>b. Blocks (doc (handleTop ((finalizeBlock (finalizeCurrentTag q))\<lparr>state := stateTop\<rparr>) l))
        = Blocks (doc p) @ [b] \<and> Block_FunctionName b = f"
    if q: "inv q" "unbound q" "state q = stateSheblock" "doc q = doc p" for q
  proof -
    from finalize_appends [OF q(1,2,3)] obtain b where
      b: "Blocks (doc (finalizeBlock (finalizeCurrentTag q))) = Blocks (doc p) @ [b]"
      "Block_FunctionName b = []" using q(4) by auto
    have "Blocks (doc (attachFunc ((finalizeBlock (finalizeCurrentTag q))\<lparr>state := stateTop\<rparr>) f))
        = Blocks (doc p) @ [b\<lparr>Block_FunctionName := f\<rparr>]"
      using b by (subst attachFunc_snoc [where bs = "Blocks (doc p)" and b = b]) simp_all
    then show ?thesis
      using m assms(2) by (simp add: handleTop_funcDecl)
  qed
  have intr: "\<exists>b. Blocks (doc (run newParser (ls @ [l]))) = Blocks (doc p) @ [b]
           \<and> Block_FunctionName b = f" if s: "state p = stateSheblock"
  proof -
    let ?q = "p\<lparr>line := line p + 1\<rparr>"
    have "inv ?q" "unbound ?q" "state ?q = stateSheblock" "doc ?q = doc p"
      using ip up s by (simp_all add: inv_def unbound_def)
    from blk [OF this] show ?thesis
      using s assms(1) funcDecl_no_continuation [OF m]
      by (simp add: run_snoc step_def dispatch_def handleSheblock_def)
  qed
  have clos: "\<exists>b. Blocks (doc (run newParser (ls @ [c, l]))) = Blocks (doc p) @ [b]
              \<and> Block_FunctionName b = f" if s: "state p = stateSheblock" and c: "reBlockClose c" for c
  proof -
    let ?q = "p\<lparr>line := line p + 1\<rparr>"
    have q: "inv ?q" "unbound ?q" "state ?q = stateSheblock" "doc ?q = doc p"
      using ip up s by (simp_all add: inv_def unbound_def)
    have 1: "run newParser (ls @ [c]) = (finalizeBlock (finalizeCurrentTag ?q))\<lparr>state := stateTop\<rparr>"
      using s c assms(1) by (simp add: run_snoc step_def dispatch_def handleSheblock_def)
    have "run newParser (ls @ [c, l])
        = step ((finalizeBlock (finalizeCurrentTag ?q))\<lparr>state := stateTop\<rparr>) l"
      using run_snoc [of newParser "ls @ [c]" l] by (simp add: 1)
    then have 2: "Blocks (doc (run newParser (ls @ [c, l])))
        = Blocks (doc (handleTop ((finalizeBlock (finalizeCurrentTag ?q))\<lparr>state := stateTop\<rparr>) l))"
      using m by (simp add: step_def dispatch_def handleTop_funcDecl attachFunc_def Let_def)
    from blk [OF q] show ?thesis by (simp add: 2)
  qed
  have inrt: "run newParser (ls @ [l']) = p\<lparr>line := line p + 1\<rparr>"
    if "state p = stateTop" and "inert l'" for l'
    using that assms(1) by (simp add: run_snoc step_def dispatch_def handleTop_def inert_def)
  have kept: "i < length (Blocks (doc (parse newParser (ls @ ls'))))
          \<and> Blocks (doc (parse newParser (ls @ ls'))) ! i = Blocks (doc p) ! i"
    if "i < length (Blocks (doc p))" and "Block_FunctionName (Blocks (doc p) ! i) \<noteq> []" for i ls'
  proof -
    have "keeps (Blocks (doc p)) (Blocks (doc (run p ls')))" by (rule keeps_run)
    moreover have "keeps (Blocks (doc (run p ls'))) (Blocks (doc (atEOF (run p ls'))))"
      by (rule keeps_atEOF)
    ultimately have "keeps (Blocks (doc p)) (Blocks (doc (parse newParser (ls @ ls'))))"
      unfolding parse_def run_append assms(1) by (rule keeps_trans)
    with that show ?thesis by (simp add: keeps_def)
  qed
  from top intr clos inrt kept show ?thesis by blast
qed


theorem function_binds_last_block_witness:
  "map Block_FunctionName
     (Blocks (doc (run newParser [''#@/public'', '' ##'', ''echo hi'', ''foo() {''])))
     = [''foo'']
   \<and> Blocks (doc (parse newParser
        ([''#@/public'', '' ##'', ''echo hi'', ''foo() {''] @ [''bar() {'']))) ! 0
     = Blocks (doc (run newParser [''#@/public'', '' ##'', ''echo hi'', ''foo() {''])) ! 0
   \<and> (\<exists>b. Blocks (doc (run newParser ([''#@/public''] @ ['' ##'', ''foo() {'']))) = [b]
        \<and> Block_FunctionName b = ''foo'')"
proof -
  let ?ls = "[''#@/public'', '' ##'', ''echo hi'']"
  let ?p = "run newParser ?ls"
  have f: "''foo'' = matchFuncDecl ''foo() {''" by code_simp
  have g: "''bar'' = matchFuncDecl ''bar() {''" by code_simp
  have n: "''foo'' \<noteq> []" "''bar'' \<noteq> []" by simp_all
  have t: "state ?p = stateTop" by code_simp
  have b: "Blocks (doc ?p) = [] @ [newBlock VisibilityPublic [] 1]" by code_simp
  from function_binds_last_block [OF refl f n(1), of ?ls] t b
  have "Blocks (doc (run newParser (?ls @ [''foo() {'']))) =
      [] @ [if Block_FunctionName (newBlock VisibilityPublic [] 1) = []
            then (newBlock VisibilityPublic [] 1)\<lparr>Block_FunctionName := ''foo''\<rparr>
            else newBlock VisibilityPublic [] 1]"
    by blast
  then have 1: "map Block_FunctionName (Blocks (doc (run newParser (?ls @ [''foo() {''])))) = [''foo'']"
    by (simp add: newBlock_def)
  let ?q = "run newParser (?ls @ [''foo() {''])"
  have i: "0 < length (Blocks (doc ?q)) \<and> Block_FunctionName (Blocks (doc ?q) ! 0) \<noteq> []"
    by code_simp
  from function_binds_last_block [OF refl g n(2), of "?ls @ [''foo() {'']"] i
  have 2: "Blocks (doc (parse newParser ((?ls @ [''foo() {'']) @ [''bar() {'']))) ! 0
      = Blocks (doc ?q) ! 0"
    by blast
  have s: "state (run newParser [''#@/public'']) = stateSheblock" by code_simp
  have c: "reBlockClose '' ##''" by code_simp
  have e: "Blocks (doc (run newParser [''#@/public''])) = []" by code_simp
  from function_binds_last_block [OF refl f n(1), of "[''#@/public'']"] s c
  have "\<exists>b. Blocks (doc (run newParser ([''#@/public''] @ ['' ##'', ''foo() {'']))) =
      Blocks (doc (run newParser [''#@/public''])) @ [b] \<and> Block_FunctionName b = ''foo''"
    by blast
  then have 3: "\<exists>b. Blocks (doc (run newParser ([''#@/public''] @ ['' ##'', ''foo() {''])))
      = [b] \<and> Block_FunctionName b = ''foo''"
    by (simp add: e)
  from 1 2 3 show ?thesis by simp
qed

section \<open>Repeated flag spellings\<close>

lemma trimLeft_asciiSpace: "asciiSpace c \<Longrightarrow> trimLeft (c # s) = trimLeft s"
  by (simp add: trimLeft.simps [of "c # s"] spaceWidth_def)

lemma TrimSpace_space: "asciiSpace c \<Longrightarrow> TrimSpace (c # s) = TrimSpace s"
  by (simp add: TrimSpace_def trimLeft_asciiSpace)

lemma cutBlank_token: "\<forall>c \<in> set a. \<not> blank c \<Longrightarrow> cutBlank a = (a, None)"
  by (simp add: cutBlank_def)

lemma cutBlank_blank:
  "\<forall>c \<in> set a. \<not> blank c \<Longrightarrow> blank c \<Longrightarrow> cutBlank (a @ c # r) = (a, Some r)"
  by (simp add: cutBlank_def takeWhile_append2 dropWhile_append2)

text \<open>
  A flag spelling as the loop of \<open>consumeFlags\<close> takes it: a token that starts with a hyphen,
  holds no space or tab and does not end with a byte that could end a white-space rune. A
  long spelling starts with two hyphens, a short one does not; the loop tests the two
  hyphens first.
\<close>

definition spelling :: "string \<Rightarrow> bool" where
  "spelling a \<longleftrightarrow> prefix ''-'' a \<and> (\<forall>c \<in> set a. \<not> blank c) \<and> \<not> spaceTail (last a)"

text \<open>
  A description as it stands after trimming: not empty, no white space at either end; it
  does not start with the separator.
\<close>

definition descriptionText :: "string \<Rightarrow> bool" where
  "descriptionText d \<longleftrightarrow>
     d \<noteq> [] \<and> \<not> spaceHead (hd d) \<and> \<not> spaceTail (last d) \<and> \<not> prefix ''|'' d"

lemma spelling_TrimSpace:
  assumes "spelling a" and "y = [] \<or> \<not> spaceTail (last y)"
  shows "TrimSpace (a @ y) = a @ y"
proof -
  from assms(1) obtain a' where a: "a = CHR ''-'' # a'"
    by (cases a) (auto simp: spelling_def)
  have "\<not> spaceHead (hd (a @ y))"
    by (simp add: a spaceHead_def asciiSpace_def)
  moreover have "\<not> spaceTail (last (a @ y))"
    using assms by (cases "y = []") (simp_all add: spelling_def)
  ultimately show ?thesis by (intro TrimSpace_id) (simp_all add: a)
qed

lemma spelling_split:
  assumes "spelling a" and "\<not> spaceTail (last (c # r))" and "blank c"
  shows "splitFirstToken (a @ c # r) = (a, r)"
proof -
  have "TrimSpace (a @ c # r) = a @ c # r"
    using assms(1,2) by (intro spelling_TrimSpace) simp_all
  moreover have "cutBlank (a @ c # r) = (a, Some r)"
    using assms(1,3) by (intro cutBlank_blank) (simp_all add: spelling_def)
  ultimately show ?thesis by (simp add: splitFirstToken_def)
qed

lemma spelling_split_alone:
  assumes "spelling a"
  shows "splitFirstToken a = (a, [])"
proof -
  have "TrimSpace (a @ []) = a @ []"
    using assms by (intro spelling_TrimSpace) simp_all
  moreover have "cutBlank a = (a, None)"
    using assms by (intro cutBlank_token) (simp add: spelling_def)
  ultimately show ?thesis by (simp add: splitFirstToken_def)
qed

lemma spelling_prefix2:
  assumes "spelling a"
  shows "prefix ''--'' (a @ CHR '' '' # r) \<longleftrightarrow> prefix ''--'' a"
proof -
  from assms obtain a' where a: "a = CHR ''-'' # a'"
    by (cases a) (auto simp: spelling_def)
  show ?thesis by (cases a') (simp_all add: a)
qed

lemma spelling_prefix1:
  assumes "spelling a"
  shows "prefix ''-'' (a @ r)" and "a @ r \<noteq> []"
  using assms by (cases a; auto simp: spelling_def)+

text \<open>One round of the loop on a spelling followed by the separator and more text.\<close>

lemma consumeLoop_sep:
  assumes "spelling a" and "x \<noteq> []" and "\<not> spaceHead (hd x)" and "\<not> spaceTail (last x)"
  shows "consumeLoop (a @ CHR '' '' # CHR ''|'' # CHR '' '' # x) s l =
     (if prefix ''--'' a then consumeLoop x s a else consumeLoop x a l)"
proof -
  let ?t = "a @ CHR '' '' # CHR ''|'' # CHR '' '' # x"
  have sp: "splitFirstToken ?t = (a, CHR ''|'' # CHR '' '' # x)"
    using assms by (intro spelling_split) (simp_all add: blank_def)
  have t1: "TrimSpace (CHR ''|'' # CHR '' '' # x) = CHR ''|'' # CHR '' '' # x"
    using assms by (intro TrimSpace_id) (simp_all add: spaceHead_def asciiSpace_def)
  have t2: "TrimSpace (CHR '' '' # x) = x"
    using assms by (simp add: TrimSpace_space asciiSpace_def TrimSpace_id)
  have p2: "prefix ''--'' ?t \<longleftrightarrow> prefix ''--'' a"
    using assms(1) by (rule spelling_prefix2)
  have p1: "prefix ''-'' ?t" "?t \<noteq> []"
    using assms(1) by (rule spelling_prefix1)+
  show ?thesis
    using p1 by (subst consumeLoop.simps) (simp add: sp t1 t2 p2)
qed

text \<open>The last round: a spelling alone, or followed by a description.\<close>

lemma consumeLoop_last:
  assumes "spelling b"
  shows "consumeLoop b s l = (if prefix ''--'' b then ([], s, b) else ([], b, l))"
proof -
  have p1: "prefix ''-'' b" "b \<noteq> []"
    using spelling_prefix1 [OF assms, of "[]"] by simp_all
  show ?thesis
    using p1 by (subst consumeLoop.simps) (simp add: spelling_split_alone [OF assms])
qed

lemma consumeLoop_last_desc:
  assumes "spelling b" and "descriptionText d"
  shows "consumeLoop (b @ CHR '' '' # d) s l = (if prefix ''--'' b then (d, s, b) else (d, b, l))"
proof -
  let ?t = "b @ CHR '' '' # d"
  from assms(2) have d: "d \<noteq> []" "\<not> spaceHead (hd d)" "\<not> spaceTail (last d)" "\<not> prefix ''|'' d"
    by (simp_all add: descriptionText_def)
  have sp: "splitFirstToken ?t = (b, d)"
    using assms(1) d by (intro spelling_split) (simp_all add: blank_def)
  have t1: "TrimSpace d = d"
    using d by (intro TrimSpace_id)
  have p2: "prefix ''--'' ?t \<longleftrightarrow> prefix ''--'' b"
    using assms(1) by (rule spelling_prefix2)
  have p1: "prefix ''-'' ?t" "?t \<noteq> []"
    using assms(1) by (rule spelling_prefix1)+
  show ?thesis
    using p1 d(4) by (subst consumeLoop.simps) (simp add: sp t1 p2)
qed


lemma spelling_head_tail:
  assumes "spelling b"
  shows "b \<noteq> []" and "\<not> spaceHead (hd b)" and "\<not> spaceTail (last b)"
  using assms by (cases b; auto simp: spelling_def spaceHead_def asciiSpace_def)+

text \<open>
  Claim C9. Let \<open>a\<close> and \<open>b\<close> be two spellings of one kind, both short or both long, and \<open>d\<close>
  a description. On \<open>a | b\<close> and on \<open>a | b d\<close>, \<open>consumeFlags\<close> leaves \<open>b\<close> in the variable of
  that kind, whatever it held, and does not touch the other one; \<open>a\<close> is lost. So the flag
  record of \<open>parseFlag\<close> has the spelling \<open>b\<close>, and so has every option record that
  \<open>parseOption\<close> returns.
\<close>

theorem later_spelling_wins:
  assumes "spelling a" and "spelling b" and "prefix ''--'' a \<longleftrightarrow> prefix ''--'' b"
    and "descriptionText d"
  shows "consumeFlags (a @ '' | '' @ b) s l
      = (if prefix ''--'' b then ([], s, b) else ([], b, l))
    \<and> consumeFlags (a @ '' | '' @ b @ '' '' @ d) s l
      = (if prefix ''--'' b then (d, s, b) else (d, b, l))
    \<and> parseFlag (a @ '' | '' @ b) n
      = Inr \<lparr>Flag_Short = (if prefix ''--'' b then [] else b),
             Flag_Long = (if prefix ''--'' b then b else []),
             Flag_Description = [], Flag_Line = n\<rparr>
    \<and> parseFlag (a @ '' | '' @ b @ '' '' @ d) n
      = Inr \<lparr>Flag_Short = (if prefix ''--'' b then [] else b),
             Flag_Long = (if prefix ''--'' b then b else []),
             Flag_Description = d, Flag_Line = n\<rparr>
    \<and> (\<forall>opt. parseOption (a @ '' | '' @ b @ '' '' @ d) n = Inr opt \<longrightarrow>
          Option_Short opt = (if prefix ''--'' b then [] else b)
          \<and> Option_Long opt = (if prefix ''--'' b then b else []))"
proof -
  note b = spelling_head_tail [OF assms(2)]
  from assms(4) have d: "d \<noteq> []" "\<not> spaceHead (hd d)" "\<not> spaceTail (last d)"
    by (simp_all add: descriptionText_def)
  have t1: "TrimSpace (a @ '' | '' @ b) = a @ '' | '' @ b"
    using assms(1) b by (intro spelling_TrimSpace) simp_all
  have t2: "TrimSpace (a @ '' | '' @ b @ '' '' @ d) = a @ '' | '' @ b @ '' '' @ d"
    using assms(1) d by (intro spelling_TrimSpace) simp_all
  have n1: "a @ '' | '' @ b \<noteq> []" "a @ '' | '' @ b @ '' '' @ d \<noteq> []"
    by simp_all
  have l1: "consumeLoop (a @ '' | '' @ b) s l
      = (if prefix ''--'' b then ([], s, b) else ([], b, l))" for s l
    using assms(3) b
    by (simp add: consumeLoop_sep [OF assms(1)] consumeLoop_last [OF assms(2)])
  have "consumeLoop (a @ CHR '' '' # CHR ''|'' # CHR '' '' # (b @ CHR '' '' # d)) s l
      = (if prefix ''--'' b then (d, s, b) else (d, b, l))" for s l
    using assms(3) b d
    by (subst consumeLoop_sep [OF assms(1)])
       (simp_all add: consumeLoop_last_desc [OF assms(2,4)])
  then have l2: "consumeLoop (a @ '' | '' @ b @ '' '' @ d) s l
      = (if prefix ''--'' b then (d, s, b) else (d, b, l))" for s l
    by simp
  have c1: "consumeFlags (a @ '' | '' @ b) s l
      = (if prefix ''--'' b then ([], s, b) else ([], b, l))" for s l
    unfolding consumeFlags_def t1 by (rule l1)
  have c2: "consumeFlags (a @ '' | '' @ b @ '' '' @ d) s l
      = (if prefix ''--'' b then (d, s, b) else (d, b, l))" for s l
    unfolding consumeFlags_def t2 by (rule l2)
  have td: "TrimSpace d = d" using d by (intro TrimSpace_id)
  have f1: "parseFlag (a @ '' | '' @ b) n
      = Inr \<lparr>Flag_Short = (if prefix ''--'' b then [] else b),
             Flag_Long = (if prefix ''--'' b then b else []),
             Flag_Description = [], Flag_Line = n\<rparr>"
    unfolding parseFlag_def t1 Let_def using n1(1) c1 [of "[]" "[]"] by simp
  have f2: "parseFlag (a @ '' | '' @ b @ '' '' @ d) n
      = Inr \<lparr>Flag_Short = (if prefix ''--'' b then [] else b),
             Flag_Long = (if prefix ''--'' b then b else []),
             Flag_Description = d, Flag_Line = n\<rparr>"
    unfolding parseFlag_def t2 Let_def using n1(2) c2 [of "[]" "[]"] by (simp add: td)
  have o: "Option_Short opt = (if prefix ''--'' b then [] else b)
          \<and> Option_Long opt = (if prefix ''--'' b then b else [])"
    if "parseOption (a @ '' | '' @ b @ '' '' @ d) n = Inr opt" for opt
    using that n1(2) c2 [of "[]" "[]"] unfolding parseOption_def t2 Let_def
    by (auto split: prod.splits if_splits sum.splits)
  from c1 c2 f1 f2 o show ?thesis by blast
qed

theorem later_spelling_wins_witness:
  "parseFlag ''-a | -b'' 1
     = Inr \<lparr>Flag_Short = ''-b'', Flag_Long = [], Flag_Description = [], Flag_Line = 1\<rparr>
   \<and> parseFlag ''--all | --both Both of them'' 1
     = Inr \<lparr>Flag_Short = [], Flag_Long = ''--both'', Flag_Description = ''Both of them'',
            Flag_Line = 1\<rparr>
   \<and> parseOption ''-f | -g <type> Output'' 1
     = Inr \<lparr>Option_Short = ''-g'', Option_Long = [],
            Option_Value = \<lparr>Value_Name = ''type'', Value_Required = True, Value_Default = [],
              Value_Variadic = False\<rparr>,
            Option_Description = ''Output'', Option_Line = 1\<rparr>"
proof -
  have sa: "spelling ''-a''" "spelling ''-b''" "prefix ''--'' ''-a'' \<longleftrightarrow> prefix ''--'' ''-b''"
    by (simp_all add: spelling_def blank_def spaceTail_def asciiSpace_def)
  have la: "spelling ''--all''" "spelling ''--both''"
    "prefix ''--'' ''--all'' \<longleftrightarrow> prefix ''--'' ''--both''"
    by (simp_all add: spelling_def blank_def spaceTail_def asciiSpace_def)
  have sf: "spelling ''-f''" "spelling ''-g''" "prefix ''--'' ''-f'' \<longleftrightarrow> prefix ''--'' ''-g''"
    by (simp_all add: spelling_def blank_def spaceTail_def asciiSpace_def)
  have d: "descriptionText ''Both of them''" "descriptionText ''<type> Output''"
    by (simp_all add: descriptionText_def spaceHead_def spaceTail_def asciiSpace_def)
  have po: "parseOption ''-f | -g <type> Output'' 1
     = Inr \<lparr>Option_Short = ''-g'', Option_Long = [],
            Option_Value = \<lparr>Value_Name = ''type'', Value_Required = True, Value_Default = [],
              Value_Variadic = False\<rparr>,
            Option_Description = ''Output'', Option_Line = 1\<rparr>"
    by code_simp
  from later_spelling_wins [OF sa d(1), of "[]" "[]" 1]
    later_spelling_wins [OF la d(1), of "[]" "[]" 1]
    later_spelling_wins [OF sf d(2), of "[]" "[]" 1] po
  show ?thesis by simp
qed

section \<open>White space around a line\<close>

lemma trimRight_asciiSpace: "asciiSpace c \<Longrightarrow> trimRight (s @ [c]) = trimRight s"
  by (simp add: trimRight.simps [of "s @ [c]"] spaceWidthR_def)

lemma trimRight_spaces: "list_all asciiSpace ws \<Longrightarrow> trimRight (s @ ws) = trimRight s"
proof (induction ws rule: rev_induct)
  case Nil
  show ?case by simp
next
  case (snoc c ws)
  then have "trimRight ((s @ ws) @ [c]) = trimRight (s @ ws)"
    by (intro trimRight_asciiSpace) simp
  with snoc show ?case by simp
qed

lemma trimLeft_spaces: "list_all asciiSpace ws \<Longrightarrow> trimLeft ws = []"
  by (induction ws) (simp_all add: trimLeft_asciiSpace)

lemma spaces2_second: "xs \<in> set spaces2 \<Longrightarrow> length xs = 2 \<and> \<not> asciiSpace (xs ! 1)"
  unfolding spaces2_def asciiSpace_def set_simps insert_iff empty_iff
  by (elim disjE; simp)

lemma spaces3_rest:
  "xs \<in> set spaces3 \<Longrightarrow> length xs = 3 \<and> \<not> asciiSpace (xs ! 1) \<and> \<not> asciiSpace (xs ! 2)"
  unfolding spaces3_def asciiSpace_def set_simps insert_iff empty_iff
  by (elim disjE; simp)

lemma take_append_spaces:
  assumes "s \<noteq> []" and "list_all asciiSpace ws"
    and "\<And>xs. xs \<in> S \<Longrightarrow> length xs = n \<and> (\<forall>i. 0 < i \<and> i < n \<longrightarrow> \<not> asciiSpace (xs ! i))"
  shows "take n (s @ ws) \<in> S \<longleftrightarrow> take n s \<in> S"
proof (cases "n \<le> length s")
  case True
  then show ?thesis by simp
next
  case False
  then have short: "length s < n" by simp
  have "take n s \<notin> S"
  proof
    assume "take n s \<in> S"
    from assms(3) [OF this] short show False by simp
  qed
  moreover have "take n (s @ ws) \<notin> S"
  proof
    assume a: "take n (s @ ws) \<in> S"
    from assms(3) [OF a] have len: "length (take n (s @ ws)) = n"
      and ns: "\<not> asciiSpace (take n (s @ ws) ! length s)"
      using short assms(1) by auto
    from len short have "n - length s \<le> length ws" "0 < n - length s" by auto
    then have "take n (s @ ws) ! length s = ws ! 0" "ws \<noteq> []"
      using short by (auto simp: nth_append)
    with assms(2) have "asciiSpace (take n (s @ ws) ! length s)"
      by (cases ws) auto
    with ns show False by simp
  qed
  ultimately show ?thesis by simp
qed

lemma spaceWidth_append_spaces:
  assumes "s \<noteq> []" and "list_all asciiSpace ws"
  shows "spaceWidth (s @ ws) = spaceWidth s"
proof -
  have 2: "take 2 (s @ ws) \<in> set spaces2 \<longleftrightarrow> take 2 s \<in> set spaces2"
    using assms
  proof (rule take_append_spaces)
    fix xs assume "xs \<in> set spaces2"
    from spaces2_second [OF this]
    show "length xs = 2 \<and> (\<forall>i. 0 < i \<and> i < 2 \<longrightarrow> \<not> asciiSpace (xs ! i))"
      by (auto simp: less_Suc_eq numeral_2_eq_2)
  qed
  have 3: "take 3 (s @ ws) \<in> set spaces3 \<longleftrightarrow> take 3 s \<in> set spaces3"
    using assms
  proof (rule take_append_spaces)
    fix xs assume "xs \<in> set spaces3"
    from spaces3_rest [OF this]
    show "length xs = 3 \<and> (\<forall>i. 0 < i \<and> i < 3 \<longrightarrow> \<not> asciiSpace (xs ! i))"
      by (auto simp: less_Suc_eq numeral_3_eq_3 numeral_2_eq_2)
  qed
  show ?thesis
    unfolding spaceWidth_def 2 3 using assms(1) by simp
qed

lemma trimLeft_append_spaces:
  "list_all asciiSpace ws \<Longrightarrow>
   trimLeft (s @ ws) = (if trimLeft s = [] then [] else trimLeft s @ ws)"
proof (induction s rule: trimLeft.induct)
  case (1 s)
  show ?case
  proof (cases "s = []")
    case True
    with 1(2) show ?thesis by (simp add: trimLeft_spaces)
  next
    case ne: False
    note w = spaceWidth_append_spaces [OF ne 1(2)]
    show ?thesis
    proof (cases "spaceWidth s = 0")
      case True
      with ne w show ?thesis
        by (simp add: trimLeft.simps [of s] trimLeft.simps [of "s @ ws"])
    next
      case False
      have "spaceWidth s \<le> length s" by (rule spaceWidth_le)
      then have "drop (spaceWidth s) (s @ ws) = drop (spaceWidth s) s @ ws" by simp
      with False w 1 show ?thesis
        by (simp add: trimLeft.simps [of s] trimLeft.simps [of "s @ ws"])
    qed
  qed
qed

lemma TrimSpace_append_spaces: "list_all asciiSpace ws \<Longrightarrow> TrimSpace (s @ ws) = TrimSpace s"
  by (simp add: TrimSpace_def trimLeft_append_spaces trimRight_spaces)

lemma TrimSpace_spaces: "list_all asciiSpace ws \<Longrightarrow> TrimSpace ws = []"
  by (simp add: TrimSpace_def trimLeft_spaces)


lemma blank_facts:
  assumes "list_all blank ws"
  shows "list_all asciiSpace ws" and "list_all reSpace ws" and "noLF ws"
    and "CHR ''#'' \<notin> set ws"
  using assms
  by (induction ws) (auto simp: blank_def asciiSpace_def reSpace_def noLF_def)

lemma reSpace_asciiSpace: "reSpace c \<Longrightarrow> asciiSpace c"
  by (auto simp: reSpace_def asciiSpace_def)

lemma TrimSpace_single: "asciiSpace c \<Longrightarrow> TrimSpace [c] = []"
  using TrimSpace_spaces [of "[c]"] by simp

lemma noLF_append [simp]: "noLF (xs @ ys) \<longleftrightarrow> noLF xs \<and> noLF ys"
  by (auto simp: noLF_def)

lemma stripPrefix_append:
  "stripPrefix pre l = Some r \<Longrightarrow> stripPrefix pre (l @ ws) = Some (r @ ws)"
  by (auto simp: stripPrefix_def split: if_splits elim!: prefixE)

text \<open>Trailing spaces and tabs after an inline metadata line only extend the value.\<close>

lemma reShedocInline_pad:
  assumes ws: "list_all blank ws" and m: "reShedocInline l = Some (w, v)"
  shows "\<exists>v'. reShedocInline (l @ ws) = Some (w, v') \<and> TrimSpace v' = TrimSpace v"
proof -
  note b = blank_facts [OF ws]
  from m obtain r where r: "stripPrefix ''#?/'' l = Some r"
    by (auto simp: reShedocInline_def split: option.splits)
  let ?r1 = "dropWhile isWord r"
  let ?v = "dropWhile reSpace ?r1"
  from m r have w: "w = takeWhile isWord r" "takeWhile isWord r \<noteq> []"
    and sp: "takeWhile reSpace ?r1 \<noteq> []"
    by (auto simp: reShedocInline_def Let_def split: if_splits)
  have "?r1 \<noteq> []"
  proof
    assume "?r1 = []"
    then have "takeWhile reSpace ?r1 = []" by (simp only: takeWhile.simps)
    with sp show False by (simp only:)
  qed
  then obtain x where x: "x \<in> set r" "\<not> isWord x"
    by (auto simp: dropWhile_eq_Nil_conv)
  have tw: "takeWhile isWord (r @ ws) = takeWhile isWord r"
    using x by (rule takeWhile_append1)
  have dw: "dropWhile isWord (r @ ws) = ?r1 @ ws"
    using x by (rule dropWhile_append1)
  have r': "stripPrefix ''#?/'' (l @ ws) = Some (r @ ws)"
    using r by (rule stripPrefix_append)
  have e: "reShedocInline (l @ ws) =
     (if takeWhile isWord r = [] \<or> takeWhile reSpace (?r1 @ ws) = [] then None
      else if dropWhile reSpace (?r1 @ ws) \<noteq> [] then
        (if noLF (dropWhile reSpace (?r1 @ ws))
         then Some (takeWhile isWord r, dropWhile reSpace (?r1 @ ws)) else None)
      else if 2 \<le> length (takeWhile reSpace (?r1 @ ws))
           \<and> last (takeWhile reSpace (?r1 @ ws)) \<noteq> CHR 0x0A
      then Some (takeWhile isWord r, [last (takeWhile reSpace (?r1 @ ws))]) else None)"
    by (simp only: reShedocInline_def r' option.case tw dw Let_def)
  show ?thesis
  proof (cases "?v = []")
    case False
    with m r have v: "v = ?v" "noLF ?v"
      by (auto simp: reShedocInline_def Let_def split: if_splits)
    from False obtain y where y: "y \<in> set ?r1" "\<not> reSpace y"
      by (auto simp: dropWhile_eq_Nil_conv)
    have T: "takeWhile reSpace (?r1 @ ws) = takeWhile reSpace ?r1"
      using y by (rule takeWhile_append1)
    have D: "dropWhile reSpace (?r1 @ ws) = ?v @ ws"
      using y by (rule dropWhile_append1)
    have "reShedocInline (l @ ws) = Some (w, ?v @ ws)"
      unfolding e T D using False sp w v b(3) by simp
    moreover have "TrimSpace (?v @ ws) = TrimSpace v"
      using b(1) v(1) by (simp add: TrimSpace_append_spaces)
    ultimately show ?thesis by blast
  next
    case True
    then have all: "list_all reSpace ?r1"
      by (simp add: dropWhile_eq_Nil_conv list_all_iff)
    then have tk: "takeWhile reSpace ?r1 = ?r1"
      by (simp add: takeWhile_eq_all_conv list_all_iff)
    from m r True tk have v: "v = [last ?r1]" "2 \<le> length ?r1" "last ?r1 \<noteq> CHR 0x0A"
      by (auto simp: reShedocInline_def Let_def split: if_splits)
    from all b(2) have all': "list_all reSpace (?r1 @ ws)" by simp
    then have T: "takeWhile reSpace (?r1 @ ws) = ?r1 @ ws"
      and D: "dropWhile reSpace (?r1 @ ws) = []"
      by (simp_all add: takeWhile_eq_all_conv dropWhile_eq_Nil_conv list_all_iff)
    have "last (?r1 @ ws) \<noteq> CHR 0x0A"
    proof (cases "ws = []")
      case True
      with v(3) show ?thesis by simp
    next
      case False
      then have "last ws \<in> set ws" by (rule last_in_set)
      with b(3) have "last ws \<noteq> CHR 0x0A" by (auto simp: noLF_def)
      with False show ?thesis by simp
    qed
    then have "reShedocInline (l @ ws) = Some (w, [last (?r1 @ ws)])"
      unfolding e T D using w v(2) \<open>?r1 \<noteq> []\<close> by (simp del: last_append)
    moreover have "last (?r1 @ ws) \<in> set (?r1 @ ws)" "last ?r1 \<in> set ?r1"
      using \<open>?r1 \<noteq> []\<close> by (simp_all only: last_in_set append_is_Nil_conv simp_thms)
    with all all' have "reSpace (last (?r1 @ ws))" "reSpace (last ?r1)"
      by (simp_all only: list_all_iff)
    then have "TrimSpace [last (?r1 @ ws)] = TrimSpace v"
      by (simp add: v(1) TrimSpace_single reSpace_asciiSpace del: last_append)
    ultimately show ?thesis by blast
  qed
qed

lemma hash_line:
  assumes "prefix ''#'' l"
  shows "\<not> reBlockClose l" and "reContinuation l = None"
  using assms by (cases l; auto simp: reBlockClose_def reContinuation_def stripPrefix_def)+

lemma dispatch_hash_line:
  assumes "prefix ''#'' l"
  shows "dispatch p l =
     handleTop (case state p of stateTop \<Rightarrow> p
        | stateShedoc \<Rightarrow> (finalizeShedoc p)\<lparr>state := stateTop\<rparr>
        | stateSheblock \<Rightarrow> (finalizeBlock (finalizeCurrentTag p))\<lparr>state := stateTop\<rparr>) l"
  using hash_line [OF assms]
  by (cases "state p") (simp_all add: dispatch_def handleShedoc_def handleSheblock_def)

lemma handleTop_inline_pad:
  assumes ws: "list_all blank ws" and m: "reShedocInline l \<noteq> None"
  shows "handleTop p (l @ ws) = handleTop p l"
proof -
  from m obtain w v where wv: "reShedocInline l = Some (w, v)" by auto
  from reShedocInline_pad [OF ws wv] obtain v' where
    v': "reShedocInline (l @ ws) = Some (w, v')" "TrimSpace v' = TrimSpace v" by blast
  from wv have "prefix ''#?/'' l"
    by (auto simp: reShedocInline_def stripPrefix_def split: option.splits if_splits)
  then have "\<not> prefix ''#!'' l" "\<not> prefix ''#!'' (l @ ws)"
    by (cases l; cases "tl l"; auto)+
  then have "reShebang l = None" "reShebang (l @ ws) = None"
    by (simp_all add: reShebang_def stripPrefix_def)
  then show ?thesis by (simp add: handleTop_def wv v')
qed

lemma dispatch_inline_pad:
  assumes ws: "list_all blank ws" and m: "reShedocInline l \<noteq> None"
  shows "dispatch p (l @ ws) = dispatch p l"
proof -
  from m have "prefix ''#?/'' l"
    by (auto simp: reShedocInline_def stripPrefix_def split: option.splits if_splits)
  then have "prefix ''#'' l" "prefix ''#'' (l @ ws)"
    by (cases l; auto)+
  then show ?thesis
    by (simp add: dispatch_hash_line handleTop_inline_pad [OF ws m])
qed


text \<open>A tag line: a continuation line, not a close marker, whose content starts a tag.\<close>

definition tagLine :: "string \<Rightarrow> bool" where
  "tagLine l \<longleftrightarrow>
     \<not> reBlockClose l
     \<and> (case reContinuation l of None \<Rightarrow> False | Some content \<Rightarrow> splitTag content \<noteq> None)"

lemma continuation_inert:
  assumes "reContinuation l = Some content"
  shows "handleTop p l = p"
proof -
  from assms have pre: "prefix '' #'' l"
    by (auto simp: reContinuation_def stripPrefix_def split: option.splits if_splits)
  then have "\<not> prefix ''#!'' l" "\<not> prefix ''#?/'' l" "\<not> prefix ''#@/'' l"
    by (cases l; auto)+
  then have "reShebang l = None" "reShedocInline l = None" "reShedocOpen l = None"
    "reSheblockOpen l = None"
    by (simp_all add: reShebang_def reShedocInline_def reShedocOpen_def reSheblockOpen_def
        stripPrefix_def)
  moreover have "matchFuncDecl l = []"
    using funcDecl_no_continuation(1) [of l] assms by auto
  ultimately show ?thesis by (simp add: handleTop_def)
qed

lemma tagLine_pad:
  assumes ws: "list_all blank ws" and t: "tagLine l"
  shows "\<not> reBlockClose (l @ ws)"
    and "\<exists>c c'. reContinuation l = Some c \<and> reContinuation (l @ ws) = Some c'
           \<and> splitTag c' = splitTag c"
proof -
  note b = blank_facts [OF ws]
  from t obtain c where c: "reContinuation l = Some c" "splitTag c \<noteq> None"
    and nc: "\<not> reBlockClose l"
    by (auto simp: tagLine_def split: option.splits)
  from c(1) obtain r where r: "stripPrefix '' #'' l = Some r" "noLF r"
    "c = (if prefix '' '' r then tl r else r)"
    by (auto simp: reContinuation_def split: option.splits if_splits)
  from c(2) have "c \<noteq> []" by auto
  with r(3) have rne: "r \<noteq> []" by auto
  have r': "stripPrefix '' #'' (l @ ws) = Some (r @ ws)"
    using r(1) by (rule stripPrefix_append)
  have pr: "prefix '' '' (r @ ws) \<longleftrightarrow> prefix '' '' r"
    using rne by (cases r) auto
  have "tl (r @ ws) = tl r @ ws" using rne by simp
  with r b(3) have c': "reContinuation (l @ ws) = Some (c @ ws)"
    by (simp add: reContinuation_def r' pr)
  have "TrimSpace (c @ ws) = TrimSpace c"
    using b(1) by (rule TrimSpace_append_spaces)
  then have "splitTag (c @ ws) = splitTag c"
    by (simp add: splitTag_def)
  with c(1) c' show "\<exists>c c'. reContinuation l = Some c \<and> reContinuation (l @ ws) = Some c'
           \<and> splitTag c' = splitTag c"
    by blast
  from r(1) have l: "l = '' #'' @ r"
    by (auto simp: stripPrefix_def split: if_splits elim!: prefixE)
  show "\<not> reBlockClose (l @ ws)"
  proof
    assume cl: "reBlockClose (l @ ws)"
    then have "prefix '' ##'' (l @ ws)"
      by (auto simp: reBlockClose_def stripPrefix_def split: option.splits if_splits)
    then obtain r0 where r0: "r = CHR ''#'' # r0"
      using rne by (cases r) (auto simp: l)
    from cl have "list_all reSpace (r0 @ ws)"
      by (simp add: reBlockClose_def stripPrefix_def l r0)
    then have "reBlockClose l"
      by (simp add: reBlockClose_def stripPrefix_def l r0)
    with nc show False by simp
  qed
qed

lemma dispatch_tagLine_pad:
  assumes ws: "list_all blank ws" and t: "tagLine l" and s: "state p \<noteq> stateShedoc"
  shows "dispatch p (l @ ws) = dispatch p l"
proof -
  from tagLine_pad [OF ws t] obtain c c' where
    n: "\<not> reBlockClose (l @ ws)" and c: "reContinuation l = Some c"
    and c': "reContinuation (l @ ws) = Some c'" and e: "splitTag c' = splitTag c"
    by blast
  from t have nc: "\<not> reBlockClose l" and st: "splitTag c \<noteq> None"
    using c by (auto simp: tagLine_def)
  show ?thesis
  proof (cases "state p")
    case stateTop
    then show ?thesis
      by (simp add: dispatch_def continuation_inert [OF c] continuation_inert [OF c'])
  next
    case stateShedoc
    with s show ?thesis by simp
  next
    case stateSheblock
    from st obtain nm tx where "splitTag c = Some (nm, tx)" by auto
    with stateSheblock n nc c c' e show ?thesis
      by (simp add: dispatch_def handleSheblock_def)
  qed
qed

lemma run_Cons: "run p (l # ls) = run (step p l) ls"
  by (simp add: run_def)

text \<open>
  Claim C8 fails as stated. White space before the sigil takes the line out of the grammar,
  which is anchored at the first column: the metadata line below is passed over when a space
  precedes it, and a tag line with a second leading space ends its block. Two spaces after a
  metadata block opener turn it into an inline tag with an empty value.
\<close>

theorem padding_counterexample:
  "Meta_Name (Meta (doc (parse newParser [''#?/name greet'']))) = ''greet''
   \<and> Meta_Name (Meta (doc (parse newParser ['' #?/name greet'']))) = []
   \<and> map Block_Flags (Blocks (doc (parse newParser [''#@/command'', '' # @flag -v''])))
     = [[\<lparr>Flag_Short = ''-v'', Flag_Long = [], Flag_Description = [], Flag_Line = 2\<rparr>]]
   \<and> map Block_Flags (Blocks (doc (parse newParser [''#@/command'', ''  # @flag -v''])))
     = [[]]
   \<and> Meta_Description (Meta (doc (parse newParser [''#?/description'', '' # Text''])))
     = ''Text''
   \<and> Meta_Description (Meta (doc (parse newParser [''#?/description  '', '' # Text''])))
     = []"
  by code_simp

text \<open>
  Claim C8, as the code has it. Spaces and tabs appended to an inline metadata line, in any
  state of the parser, or to a tag line, outside a metadata block, change neither the
  parser state after the line nor the document that \<open>ParseReader\<close> returns.
\<close>

theorem trailing_blanks_ignored:
  assumes "list_all blank ws"
    and "reShedocInline l \<noteq> None \<or> (tagLine l \<and> state (run newParser pre) \<noteq> stateShedoc)"
  shows "run newParser (pre @ [l @ ws]) = run newParser (pre @ [l])
    \<and> ParseReader (pre @ (l @ ws) # post) = ParseReader (pre @ l # post)"
proof -
  let ?p = "(run newParser pre)\<lparr>line := line (run newParser pre) + 1\<rparr>"
  have "dispatch ?p (l @ ws) = dispatch ?p l"
    using assms(2)
  proof
    assume "reShedocInline l \<noteq> None"
    with assms(1) show ?thesis by (rule dispatch_inline_pad)
  next
    assume "tagLine l \<and> state (run newParser pre) \<noteq> stateShedoc"
    then show ?thesis
      by (intro dispatch_tagLine_pad [OF assms(1)]) simp_all
  qed
  then have s: "step (run newParser pre) (l @ ws) = step (run newParser pre) l"
    by (simp add: step_def)
  then have "run newParser (pre @ (l @ ws) # post) = run newParser (pre @ l # post)"
    by (simp add: run_append run_Cons)
  with s show ?thesis
    by (simp add: run_snoc ParseReader_def parse_def)
qed

theorem trailing_blanks_ignored_witness:
  "ParseReader ([''#!/bin/sh''] @ (''#?/name greet'' @ ''  '') # [''#?/version 1''])
     = ParseReader ([''#!/bin/sh''] @ ''#?/name greet'' # [''#?/version 1''])
   \<and> ParseReader ([''#@/command''] @ ('' # @flag -v Verbose'' @ [CHR 0x20, CHR 0x09]) # ['' ##''])
     = ParseReader ([''#@/command''] @ '' # @flag -v Verbose'' # ['' ##''])"
proof -
  have b: "list_all blank ''  ''" "list_all blank [CHR 0x20, CHR 0x09]"
    by (simp_all add: blank_def)
  have i: "reShedocInline ''#?/name greet'' \<noteq> None
      \<or> (tagLine ''#?/name greet'' \<and> state (run newParser [''#!/bin/sh'']) \<noteq> stateShedoc)"
    by code_simp
  have t: "reShedocInline '' # @flag -v Verbose'' \<noteq> None
      \<or> (tagLine '' # @flag -v Verbose'' \<and> state (run newParser [''#@/command'']) \<noteq> stateShedoc)"
    by code_simp
  from trailing_blanks_ignored [OF b(1) i, of "[''#?/version 1'']"]
    trailing_blanks_ignored [OF b(2) t, of "['' ##'']"]
  show ?thesis by blast
qed

section \<open>Warnings and records in the returned document\<close>

text \<open>The twelve kinds of tag record, and the line number a tag parser stores in its record.\<close>

datatype tag_kind =
  KFlag | KOption | KOperand | KEnv | KReads | KStdin | KExit | KStdout | KStderr | KSets
  | KWrites | KDeprecated

fun kindOf :: "tag_result \<Rightarrow> tag_kind" where
  "kindOf (RFlag v) = KFlag"
| "kindOf (ROption v) = KOption"
| "kindOf (ROperand v) = KOperand"
| "kindOf (REnv v) = KEnv"
| "kindOf (RReads v) = KReads"
| "kindOf (RStdin v) = KStdin"
| "kindOf (RExit v) = KExit"
| "kindOf (RStdout v) = KStdout"
| "kindOf (RStderr v) = KStderr"
| "kindOf (RSets v) = KSets"
| "kindOf (RWrites v) = KWrites"
| "kindOf (RDeprecated v) = KDeprecated"

fun resultLine :: "tag_result \<Rightarrow> nat" where
  "resultLine (RFlag v) = Flag_Line v"
| "resultLine (ROption v) = Option_Line v"
| "resultLine (ROperand v) = Operand_Line v"
| "resultLine (REnv v) = Env_Line v"
| "resultLine (RReads v) = Reads_Line v"
| "resultLine (RStdin v) = Stdin_Line v"
| "resultLine (RExit v) = Exit_Line v"
| "resultLine (RStdout v) = Stdout_Line v"
| "resultLine (RStderr v) = Stderr_Line v"
| "resultLine (RSets v) = Sets_Line v"
| "resultLine (RWrites v) = Writes_Line v"
| "resultLine (RDeprecated v) = Deprecated_Line v"

text \<open>
  The line numbers of the records of one kind that a block holds, in the order of the
  list; a singular field gives one number or none.
\<close>

fun recordLines :: "tag_kind \<Rightarrow> Block \<Rightarrow> nat list" where
  "recordLines KFlag b = map Flag_Line (Block_Flags b)"
| "recordLines KOption b = map Option_Line (Block_Options b)"
| "recordLines KOperand b = map Operand_Line (Block_Operands b)"
| "recordLines KEnv b = map Env_Line (Block_Env b)"
| "recordLines KReads b = map Reads_Line (Block_Reads b)"
| "recordLines KStdin b = (case Block_Stdin b of None \<Rightarrow> [] | Some v \<Rightarrow> [Stdin_Line v])"
| "recordLines KExit b = map Exit_Line (Block_Exit b)"
| "recordLines KStdout b = (case Block_Stdout b of None \<Rightarrow> [] | Some v \<Rightarrow> [Stdout_Line v])"
| "recordLines KStderr b = (case Block_Stderr b of None \<Rightarrow> [] | Some v \<Rightarrow> [Stderr_Line v])"
| "recordLines KSets b = map Sets_Line (Block_Sets b)"
| "recordLines KWrites b = map Writes_Line (Block_Writes b)"
| "recordLines KDeprecated b =
     (case Block_Deprecated b of None \<Rightarrow> [] | Some v \<Rightarrow> [Deprecated_Line v])"

definition singular :: "tag_kind \<Rightarrow> bool" where
  "singular k \<longleftrightarrow> k \<in> set [KStdin, KStdout, KStderr, KDeprecated]"

lemma recordLines_upd [simp]:
  "recordLines k (b\<lparr>Block_Description := d\<rparr>) = recordLines k b"
  "recordLines k (b\<lparr>Block_FunctionName := f\<rparr>) = recordLines k b"
  by (cases k; simp)+

lemma recordLines_newBlock [simp]: "recordLines k (newBlock v n ln) = []"
  by (cases k) (simp_all add: newBlock_def)

lemma appendTagDescription_kind [simp]:
  "tagKind (appendTagDescription r t) = tagKind r"
  "kindOf (appendTagDescription r t) = kindOf r"
  "resultLine (appendTagDescription r t) = resultLine r"
  by (cases r; simp)+

lemma applyTag_other: "name \<noteq> tagKind r \<Longrightarrow> applyTag name r b = b"
  by (cases r) (simp_all add: applyTag_def)

lemma applyTag_own:
  "applyTag ''flag'' (RFlag v1) b = b\<lparr>Block_Flags := Block_Flags b @ [v1]\<rparr>"
  "applyTag ''option'' (ROption v2) b = b\<lparr>Block_Options := Block_Options b @ [v2]\<rparr>"
  "applyTag ''operand'' (ROperand v3) b = b\<lparr>Block_Operands := Block_Operands b @ [v3]\<rparr>"
  "applyTag ''env'' (REnv v4) b = b\<lparr>Block_Env := Block_Env b @ [v4]\<rparr>"
  "applyTag ''reads'' (RReads v5) b = b\<lparr>Block_Reads := Block_Reads b @ [v5]\<rparr>"
  "applyTag ''stdin'' (RStdin v6) b = b\<lparr>Block_Stdin := Some v6\<rparr>"
  "applyTag ''exit'' (RExit v7) b = b\<lparr>Block_Exit := Block_Exit b @ [v7]\<rparr>"
  "applyTag ''stdout'' (RStdout v8) b = b\<lparr>Block_Stdout := Some v8\<rparr>"
  "applyTag ''stderr'' (RStderr v9) b = b\<lparr>Block_Stderr := Some v9\<rparr>"
  "applyTag ''sets'' (RSets v10) b = b\<lparr>Block_Sets := Block_Sets b @ [v10]\<rparr>"
  "applyTag ''writes'' (RWrites v11) b = b\<lparr>Block_Writes := Block_Writes b @ [v11]\<rparr>"
  "applyTag ''deprecated'' (RDeprecated v12) b = b\<lparr>Block_Deprecated := Some v12\<rparr>"
  by (simp_all add: applyTag_def)

lemma applyTag_lines:
  "recordLines k (applyTag (tagKind r) r b) =
     (if k = kindOf r
      then (if singular k then [resultLine r] else recordLines k b @ [resultLine r])
      else recordLines k b)"
  by (cases r; cases k) (simp_all add: applyTag_own singular_def)


lemma applyTag_any:
  "applyTag name r b = (if name = tagKind r then applyTag (tagKind r) r b else b)"
  by (simp add: applyTag_other)

lemma parseTag_line: "parseTag nm tx ln = Inr r \<Longrightarrow> resultLine r = ln"
  unfolding parseTag_def
  by (auto split: if_splits prod.splits sum.splits dest!: map_sum_Inr
      simp: parseFlag_def parseOption_def parseOperand_def parseEnv_def parseReads_def
        parseExit_def parseSets_def parseWrites_def Let_def)

subsection \<open>Warnings are added with the number of the current line\<close>

definition warnsOnly :: "nat \<Rightarrow> parser \<Rightarrow> parser \<Rightarrow> bool" where
  "warnsOnly n p p' \<longleftrightarrow>
     (\<exists>ws. Warnings (doc p') = Warnings (doc p) @ ws \<and> (\<forall>w \<in> set ws. Warning_Line w = n))"

definition warningsAt :: "nat \<Rightarrow> Document \<Rightarrow> Warning list" where
  "warningsAt n d = filter (\<lambda>w. Warning_Line w = n) (Warnings d)"

lemma warnsOnly_same: "Warnings (doc p') = Warnings (doc p) \<Longrightarrow> warnsOnly n p p'"
  by (simp add: warnsOnly_def)

lemma warnsOnly_trans: "warnsOnly n p p' \<Longrightarrow> warnsOnly n p' p'' \<Longrightarrow> warnsOnly n p p''"
  by (auto simp: warnsOnly_def)

lemma warnsOnly_filter:
  "warnsOnly m p p' \<Longrightarrow> m \<noteq> n \<Longrightarrow> warningsAt n (doc p') = warningsAt n (doc p)"
  by (auto simp: warnsOnly_def warningsAt_def)

lemma warnsOnly_addWarning: "warnsOnly (line p) p (addWarning p m)"
  by (simp add: warnsOnly_def addWarning_def)

lemma warnsOnly_setShedocMeta: "warnsOnly (line p) p (setShedocMeta p t v)"
  by (simp add: setShedocMeta_def warnsOnly_addWarning) (simp add: warnsOnly_def setMeta_def)

lemma warnsOnly_finalizeShedoc: "warnsOnly (line p) p (finalizeShedoc p)"
  using warnsOnly_setShedocMeta [of p "shedocTag p" "Join (shedocLines p) [CHR 0x0A]"]
  by (simp add: finalizeShedoc_def Let_def warnsOnly_def)

lemma warnsOnly_handleTop: "warnsOnly (line p) p (handleTop p l)"
  by (simp add: handleTop_def warnsOnly_setShedocMeta split: option.splits prod.splits)
     (simp add: warnsOnly_def)

lemma warnsOnly_state: "warnsOnly n p q \<Longrightarrow> warnsOnly n p (q\<lparr>state := s\<rparr>)"
  by (simp add: warnsOnly_def)

lemma warnsOnly_handleShedoc: "warnsOnly (line p) p (handleShedoc p l)"
proof -
  let ?q = "(finalizeShedoc p)\<lparr>state := stateTop\<rparr>"
  have 1: "warnsOnly (line p) p ?q"
    using warnsOnly_finalizeShedoc by (rule warnsOnly_state)
  have "warnsOnly (line ?q) ?q (handleTop ?q l)" by (rule warnsOnly_handleTop)
  then have "warnsOnly (line p) ?q (handleTop ?q l)" by simp
  with 1 have 2: "warnsOnly (line p) p (handleTop ?q l)" by (rule warnsOnly_trans)
  show ?thesis
  proof (cases "reBlockClose l")
    case True
    with 1 show ?thesis by (simp add: handleShedoc_def)
  next
    case False
    with 2 show ?thesis
      by (cases "reContinuation l") (simp_all add: handleShedoc_def warnsOnly_def)
  qed
qed

lemma warnsOnly_handleSheblock: "warnsOnly (line p) p (handleSheblock p l)"
proof -
  let ?q = "(finalizeBlock (finalizeCurrentTag p))\<lparr>state := stateTop\<rparr>"
  have 1: "warnsOnly (line p) p ?q" by (simp add: warnsOnly_def)
  have "warnsOnly (line ?q) ?q (handleTop ?q l)" by (rule warnsOnly_handleTop)
  then have "warnsOnly (line p) ?q (handleTop ?q l)" by simp
  with 1 have 2: "warnsOnly (line p) p (handleTop ?q l)" by (rule warnsOnly_trans)
  show ?thesis
  proof (cases "reBlockClose l")
    case True
    with 1 show ?thesis by (simp add: handleSheblock_def)
  next
    case nc: False
    show ?thesis
    proof (cases "reContinuation l")
      case None
      with nc 2 show ?thesis by (simp add: handleSheblock_def)
    next
      case (Some content)
      show ?thesis
      proof (cases "splitTag content")
        case None
        with nc Some show ?thesis
          by (simp add: handleSheblock_def warnsOnly_def)
      next
        case st: (Some nt)
        obtain nm tx where nt: "nt = (nm, tx)" by (cases nt)
        have "warnsOnly (line p) p (case parseTag nm tx (line p) of
            Inl err \<Rightarrow> addWarning ((finalizeCurrentTag p)\<lparr>inTags := True\<rparr>) (TagWarning err)
          | Inr r \<Rightarrow> (finalizeCurrentTag p)\<lparr>inTags := True, currentTag := nm,
               currentResult := Some r, tagContLines := []\<rparr>)"
          by (cases "parseTag nm tx (line p)") (simp_all add: warnsOnly_def addWarning_def)
        with nc Some st nt show ?thesis
          by (simp add: handleSheblock_def Let_def)
      qed
    qed
  qed
qed

lemma warnsOnly_step: "warnsOnly (line p + 1) p (step p l)"
proof -
  let ?q = "p\<lparr>line := line p + 1\<rparr>"
  have "warnsOnly (line ?q) ?q (dispatch ?q l)"
    using warnsOnly_handleTop [of ?q l] warnsOnly_handleShedoc [of ?q l]
      warnsOnly_handleSheblock [of ?q l]
    by (cases "state p") (simp_all add: dispatch_def)
  then show ?thesis by (simp add: step_def warnsOnly_def)
qed

lemma warningsAt_step:
  "line p + 1 \<noteq> n \<Longrightarrow> warningsAt n (doc (step p l)) = warningsAt n (doc p)"
  using warnsOnly_step by (rule warnsOnly_filter)

lemma warningsAt_run:
  "n \<le> line p \<or> line p + length ls < n \<Longrightarrow> warningsAt n (doc (run p ls)) = warningsAt n (doc p)"
proof (induction ls rule: rev_induct)
  case Nil
  show ?case by (simp add: run_def)
next
  case (snoc l ls)
  then have "line (run p ls) + 1 \<noteq> n" by (auto simp: run_line)
  then have "warningsAt n (doc (step (run p ls) l)) = warningsAt n (doc (run p ls))"
    by (rule warningsAt_step)
  with snoc show ?case by (auto simp: run_snoc)
qed

lemma warnsOnly_atEOF: "warnsOnly (line p) p (atEOF p)"
  by (cases "state p") (simp_all add: atEOF_def warnsOnly_finalizeShedoc, simp_all add: warnsOnly_def)

lemma atEOF_Sheblock_warnings:
  "state p = stateSheblock \<Longrightarrow> Warnings (doc (atEOF p)) = Warnings (doc p)"
  by (simp add: atEOF_def)

text \<open>The warnings of one line in the final document are those present after its step.\<close>

lemma warningsAt_parse:
  assumes "line q = n" and "state q = stateSheblock"
  shows "warningsAt n (doc (atEOF (run q rest))) = warningsAt n (doc q)"
proof (cases "rest = []")
  case True
  with assms(2) show ?thesis
    by (simp add: run_def warningsAt_def atEOF_Sheblock_warnings)
next
  case False
  then have "line (run q rest) \<noteq> n" using assms(1) by (cases rest) (simp_all add: run_line)
  with warnsOnly_atEOF have "warningsAt n (doc (atEOF (run q rest))) = warningsAt n (doc (run q rest))"
    by (rule warnsOnly_filter)
  also have "\<dots> = warningsAt n (doc q)"
    using assms(1) by (intro warningsAt_run) simp
  finally show ?thesis .
qed

subsection \<open>No record carries the number of a line whose tag was rejected\<close>

definition noRec :: "nat \<Rightarrow> parser \<Rightarrow> bool" where
  "noRec n p \<longleftrightarrow>
     (\<forall>k. (\<forall>b \<in> set (Blocks (doc p)). n \<notin> set (recordLines k b))
          \<and> (\<forall>b. block p = Some b \<longrightarrow> n \<notin> set (recordLines k b)))
     \<and> (\<forall>r. currentResult p = Some r \<longrightarrow> resultLine r \<noteq> n)"

lemma noRec_cong:
  "Blocks (doc p') = Blocks (doc p) \<Longrightarrow> block p' = block p
   \<Longrightarrow> currentResult p' = currentResult p \<Longrightarrow> noRec n p' = noRec n p"
  by (simp add: noRec_def)

lemma applyTag_noline:
  "n \<notin> set (recordLines k b) \<Longrightarrow> resultLine r \<noteq> n \<Longrightarrow> n \<notin> set (recordLines k (applyTag nm r b))"
  by (subst applyTag_any) (auto simp: applyTag_lines)

lemma noRec_finalizeCurrentTag: "noRec n p \<Longrightarrow> noRec n (finalizeCurrentTag p)"
  by (auto simp: noRec_def finalizeCurrentTag_def applyTagToBlock_def Let_def applyTag_noline
      split: option.splits if_splits)

lemma noRec_finalizeBlock: "noRec n p \<Longrightarrow> noRec n (finalizeBlock p)"
  by (auto simp: noRec_def finalizeBlock_def Let_def split: option.splits)

lemma noRec_attachFunc: "noRec n p \<Longrightarrow> noRec n (attachFunc p f)"
proof -
  assume a: "noRec n p"
  have "n \<notin> set (recordLines k b)"
    if "b \<in> set ((Blocks (doc p))[i := (Blocks (doc p) ! i)\<lparr>Block_FunctionName := f\<rparr>])"
      and "i < length (Blocks (doc p))" for b k i
  proof -
    from that(1) have "b \<in> insert ((Blocks (doc p) ! i)\<lparr>Block_FunctionName := f\<rparr>) (set (Blocks (doc p)))"
      using set_update_subset_insert by fastforce
    moreover have "Blocks (doc p) ! i \<in> set (Blocks (doc p))"
      using that(2) by simp
    ultimately show ?thesis using a by (auto simp: noRec_def)
  qed
  with a show ?thesis
    by (auto simp: noRec_def attachFunc_def Let_def)
qed

lemma noRec_handleTop: "noRec n p \<Longrightarrow> noRec n (handleTop p l)"
proof -
  assume a: "noRec n p"
  have s: "noRec n (setShedocMeta p t v)" for t v
    using a by (simp add: noRec_cong [of "setShedocMeta p t v" p])
  from a s show ?thesis
    by (auto simp: handleTop_def noRec_attachFunc split: option.splits prod.splits)
       (auto simp: noRec_def)
qed

lemma noRec_handleShedoc: "noRec n p \<Longrightarrow> noRec n (handleShedoc p l)"
proof -
  assume a: "noRec n p"
  then have "noRec n ((finalizeShedoc p)\<lparr>state := stateTop\<rparr>)"
    by (simp add: noRec_def)
  then have "noRec n (handleTop ((finalizeShedoc p)\<lparr>state := stateTop\<rparr>) l)"
    by (rule noRec_handleTop)
  with a show ?thesis
    by (auto simp: handleShedoc_def split: option.splits) (auto simp: noRec_def)
qed

lemma noRec_handleSheblock:
  assumes "noRec n p"
    and "line p \<noteq> n \<or> (\<forall>c nm tx r. reContinuation l = Some c \<longrightarrow> splitTag c = Some (nm, tx)
            \<longrightarrow> parseTag nm tx (line p) \<noteq> Inr r)"
  shows "noRec n (handleSheblock p l)"
proof -
  from assms(1) have q: "noRec n (finalizeCurrentTag p)" by (rule noRec_finalizeCurrentTag)
  then have "noRec n (finalizeBlock (finalizeCurrentTag p))" by (rule noRec_finalizeBlock)
  then have f: "noRec n ((finalizeBlock (finalizeCurrentTag p))\<lparr>state := stateTop\<rparr>)"
    by (simp add: noRec_def)
  show ?thesis
  proof (cases "reBlockClose l")
    case True
    with f show ?thesis by (simp add: handleSheblock_def)
  next
    case nc: False
    show ?thesis
    proof (cases "reContinuation l")
      case None
      with nc noRec_handleTop [OF f] show ?thesis by (simp add: handleSheblock_def)
    next
      case (Some content)
      show ?thesis
      proof (cases "splitTag content")
        case None
        with nc Some assms(1) q show ?thesis
          by (simp add: handleSheblock_def) (simp add: noRec_def)
      next
        case st: (Some nt)
        obtain nm tx where nt: "nt = (nm, tx)" by (cases nt)
        have "noRec n (case parseTag nm tx (line p) of
            Inl err \<Rightarrow> addWarning ((finalizeCurrentTag p)\<lparr>inTags := True\<rparr>) (TagWarning err)
          | Inr r \<Rightarrow> (finalizeCurrentTag p)\<lparr>inTags := True, currentTag := nm,
               currentResult := Some r, tagContLines := []\<rparr>)"
        proof (cases "parseTag nm tx (line p)")
          case (Inl e)
          with q show ?thesis by (simp add: noRec_def addWarning_def)
        next
          case (Inr r)
          with assms(2) Some st nt have "line p \<noteq> n" by auto
          moreover from Inr have "resultLine r = line p" by (rule parseTag_line)
          ultimately show ?thesis using q Inr by (simp add: noRec_def)
        qed
        with nc Some st nt show ?thesis
          by (simp add: handleSheblock_def Let_def)
      qed
    qed
  qed
qed

lemma noRec_step: "noRec n p \<Longrightarrow> line p + 1 \<noteq> n \<Longrightarrow> noRec n (step p l)"
proof -
  assume a: "noRec n p" and b: "line p + 1 \<noteq> n"
  let ?q = "p\<lparr>line := line p + 1\<rparr>"
  from a have q: "noRec n ?q" by (simp add: noRec_def)
  from b have "line ?q \<noteq> n" by simp
  with q have "noRec n (handleSheblock ?q l)" by (intro noRec_handleSheblock) simp_all
  with q show ?thesis
    by (cases "state p") (simp_all add: step_def dispatch_def noRec_handleTop noRec_handleShedoc)
qed

lemma noRec_run:
  "noRec n p \<Longrightarrow> n \<le> line p \<or> line p + length ls < n \<Longrightarrow> noRec n (run p ls)"
proof (induction ls rule: rev_induct)
  case Nil
  then show ?case by (simp add: run_def)
next
  case (snoc l ls)
  then have "line (run p ls) + 1 \<noteq> n" by (auto simp: run_line)
  moreover from snoc have "noRec n (run p ls)" by auto
  ultimately show ?case unfolding run_snoc by (intro noRec_step)
qed

lemma noRec_atEOF: "noRec n p \<Longrightarrow> noRec n (atEOF p)"
proof -
  assume a: "noRec n p"
  then have "noRec n (finalizeShedoc p)" by (simp add: noRec_def)
  moreover from a have "noRec n (finalizeBlock (finalizeCurrentTag p))"
    by (intro noRec_finalizeBlock noRec_finalizeCurrentTag)
  ultimately show ?thesis using a by (cases "state p") (simp_all add: atEOF_def)
qed

lemma noRec_newParser: "noRec n newParser"
  by (simp add: noRec_def newParser_def emptyDocument_def)

subsection \<open>A finalized block changes in its function name only\<close>

definition sameButName :: "Block \<Rightarrow> Block \<Rightarrow> bool" where
  "sameButName b b' \<longleftrightarrow> b' = b\<lparr>Block_FunctionName := Block_FunctionName b'\<rparr>"

lemma sameButName_refl [simp]: "sameButName b b"
  by (simp add: sameButName_def)

lemma sameButName_upd [simp]: "sameButName b (b\<lparr>Block_FunctionName := f\<rparr>)"
  by (simp add: sameButName_def)

lemma sameButName_trans: "sameButName b b' \<Longrightarrow> sameButName b' b'' \<Longrightarrow> sameButName b b''"
proof -
  assume a: "sameButName b b'" and c: "sameButName b' b''"
  then have "b'' = (b\<lparr>Block_FunctionName := Block_FunctionName b'\<rparr>)
      \<lparr>Block_FunctionName := Block_FunctionName b''\<rparr>"
    unfolding sameButName_def by metis
  then show ?thesis by (simp add: sameButName_def)
qed

definition stays :: "Block list \<Rightarrow> Block list \<Rightarrow> bool" where
  "stays bs bs' \<longleftrightarrow>
     length bs \<le> length bs' \<and> (\<forall>i < length bs. sameButName (bs ! i) (bs' ! i))"

lemma stays_refl [simp]: "stays bs bs"
  by (simp add: stays_def)

lemma stays_trans: "stays bs bs' \<Longrightarrow> stays bs' bs'' \<Longrightarrow> stays bs bs''"
  unfolding stays_def
  by (meson order_trans less_le_trans sameButName_trans)

lemma stays_append: "stays bs (bs @ cs)"
  by (simp add: stays_def nth_append)

lemma stays_attachFunc: "stays (Blocks (doc p)) (Blocks (doc (attachFunc p f)))"
  by (simp add: attachFunc_def Let_def stays_def nth_list_update)

lemma finalizeBlock_Blocks:
  "block p = Some b \<Longrightarrow>
   Blocks (doc (finalizeBlock p)) =
     Blocks (doc p) @ [if 0 < length (blockDesc p)
                       then b\<lparr>Block_Description := Join (blockDesc p) [CHR 0x0A]\<rparr> else b]"
  by (simp add: finalizeBlock_def Let_def)

lemma stays_finalizeBlock: "stays (Blocks (doc p)) (Blocks (doc (finalizeBlock p)))"
  by (cases "block p") (simp_all add: finalizeBlock_def Let_def stays_append)

lemma stays_handleTop: "stays (Blocks (doc p)) (Blocks (doc (handleTop p l)))"
  by (simp add: handleTop_def stays_attachFunc split: option.splits prod.splits)

lemma stays_handleShedoc: "stays (Blocks (doc p)) (Blocks (doc (handleShedoc p l)))"
proof -
  have "stays (Blocks (doc ((finalizeShedoc p)\<lparr>state := stateTop\<rparr>)))
      (Blocks (doc (handleTop ((finalizeShedoc p)\<lparr>state := stateTop\<rparr>) l)))"
    by (rule stays_handleTop)
  then show ?thesis
    by (simp add: handleShedoc_def split: option.splits)
qed

lemma stays_handleSheblock: "stays (Blocks (doc p)) (Blocks (doc (handleSheblock p l)))"
proof -
  let ?q = "(finalizeBlock (finalizeCurrentTag p))\<lparr>state := stateTop\<rparr>"
  have f: "stays (Blocks (doc p)) (Blocks (doc ?q))"
    using stays_finalizeBlock [of "finalizeCurrentTag p"] by simp
  have "stays (Blocks (doc ?q)) (Blocks (doc (handleTop ?q l)))"
    by (rule stays_handleTop)
  with f have "stays (Blocks (doc p)) (Blocks (doc (handleTop ?q l)))"
    by (rule stays_trans)
  with f show ?thesis
    by (simp add: handleSheblock_def addWarning_def Let_def
        split: option.splits prod.splits sum.splits)
qed

lemma stays_step: "stays (Blocks (doc p)) (Blocks (doc (step p l)))"
  using stays_handleTop [of "p\<lparr>line := line p + 1\<rparr>" l]
    stays_handleShedoc [of "p\<lparr>line := line p + 1\<rparr>" l]
    stays_handleSheblock [of "p\<lparr>line := line p + 1\<rparr>" l]
  by (cases "state p") (simp_all add: step_def dispatch_def)

lemma stays_atEOF: "stays (Blocks (doc p)) (Blocks (doc (atEOF p)))"
  using stays_finalizeBlock [of "finalizeCurrentTag p"]
  by (cases "state p") (simp_all add: atEOF_def)

subsection \<open>What a block under construction holds reaches the document\<close>

text \<open>
  \<open>C\<close> is a property of blocks and \<open>P\<close> a property of a pending tag that brings \<open>C\<close> about
  when the tag is attached. \<open>closedUnder\<close> says that \<open>C\<close> survives what the parser does to a
  block after line \<open>n\<close>. \<open>pendOK\<close> says that the parser is at line \<open>n\<close> or later and that a
  pending tag has \<open>P\<close> or comes from a line after \<open>n\<close>. \<open>kept\<close> says that block number \<open>k\<close>
  of the document has \<open>C\<close>, or that the block under construction will be number \<open>k\<close> and
  has \<open>C\<close> or a pending tag with \<open>P\<close>.
\<close>

definition closedUnder ::
  "(Block \<Rightarrow> bool) \<Rightarrow> (string \<Rightarrow> tag_result \<Rightarrow> bool) \<Rightarrow> nat \<Rightarrow> bool" where
  "closedUnder C P n \<longleftrightarrow>
     (\<forall>b nm r. C b \<longrightarrow> n < resultLine r \<longrightarrow> C (applyTag nm r b))
     \<and> (\<forall>b d. C b \<longrightarrow> C (b\<lparr>Block_Description := d\<rparr>))
     \<and> (\<forall>b f. C b \<longrightarrow> C (b\<lparr>Block_FunctionName := f\<rparr>))
     \<and> (\<forall>nm r b c. P nm r \<longrightarrow>
           nm \<noteq> [] \<and> C (applyTag nm r b) \<and> C (applyTag nm (appendTagDescription r c) b))"

definition pendOK :: "(string \<Rightarrow> tag_result \<Rightarrow> bool) \<Rightarrow> nat \<Rightarrow> parser \<Rightarrow> bool" where
  "pendOK P n p \<longleftrightarrow>
     n \<le> line p
     \<and> (\<forall>r. currentResult p = Some r \<longrightarrow> n < resultLine r \<or> P (currentTag p) r)"

definition building ::
  "(Block \<Rightarrow> bool) \<Rightarrow> (string \<Rightarrow> tag_result \<Rightarrow> bool) \<Rightarrow> parser \<Rightarrow> bool" where
  "building C P p \<longleftrightarrow>
     (\<exists>b. block p = Some b \<and> (C b \<or> (\<exists>r. currentResult p = Some r \<and> P (currentTag p) r)))"

definition kept ::
  "(Block \<Rightarrow> bool) \<Rightarrow> (string \<Rightarrow> tag_result \<Rightarrow> bool) \<Rightarrow> nat \<Rightarrow> nat \<Rightarrow> parser \<Rightarrow> bool" where
  "kept C P k n p \<longleftrightarrow>
     pendOK P n p
     \<and> ((k < length (Blocks (doc p)) \<and> C (Blocks (doc p) ! k))
        \<or> (k = length (Blocks (doc p)) \<and> state p = stateSheblock \<and> building C P p))"

lemma stays_C:
  assumes "closedUnder C P n" and "stays bs bs'" and "k < length bs" and "C (bs ! k)"
  shows "k < length bs' \<and> C (bs' ! k)"
proof -
  from assms(2,3) have "bs' ! k = (bs ! k)\<lparr>Block_FunctionName := Block_FunctionName (bs' ! k)\<rparr>"
    and k: "k < length bs'"
    by (auto simp: stays_def sameButName_def)
  moreover from assms(1,4) have "C ((bs ! k)\<lparr>Block_FunctionName := g\<rparr>)" for g
    by (auto simp: closedUnder_def)
  ultimately show ?thesis by metis
qed

lemma building_finalize:
  assumes c: "closedUnder C P n" and p: "pendOK P n p" and b: "building C P p"
  shows "\<exists>b'. block (finalizeCurrentTag p) = Some b' \<and> C b'"
proof -
  from b obtain b0 where b0: "block p = Some b0"
    and d: "C b0 \<or> (\<exists>r. currentResult p = Some r \<and> P (currentTag p) r)"
    by (auto simp: building_def)
  show ?thesis
  proof (cases "currentResult p")
    case None
    with b0 d show ?thesis by (simp add: finalizeCurrentTag_def)
  next
    case (Some r)
    show ?thesis
    proof (cases "currentTag p = []")
      case True
      with c d Some have "C b0" by (auto simp: closedUnder_def)
      with b0 Some True show ?thesis by (simp add: finalizeCurrentTag_def)
    next
      case False
      let ?r1 = "if 0 < length (tagContLines p)
                 then appendTagDescription r (Join (tagContLines p) '' '') else r"
      have "C (applyTag (currentTag p) ?r1 b0)"
      proof (cases "P (currentTag p) r")
        case True
        with c show ?thesis unfolding closedUnder_def by (cases "0 < length (tagContLines p)") auto
      next
        case np: False
        with d Some have "C b0" by simp
        moreover from np p Some have "n < resultLine ?r1" by (simp add: pendOK_def)
        ultimately show ?thesis using c unfolding closedUnder_def by blast
      qed
      with b0 Some False show ?thesis
        by (simp add: finalizeCurrentTag_def applyTagToBlock_def Let_def)
    qed
  qed
qed

lemma building_finalizeBlock:
  assumes c: "closedUnder C P n" and p: "pendOK P n p" and b: "building C P p"
  shows "\<exists>b'. Blocks (doc (finalizeBlock (finalizeCurrentTag p))) = Blocks (doc p) @ [b'] \<and> C b'"
proof -
  from building_finalize [OF c p b] obtain b' where
    b': "block (finalizeCurrentTag p) = Some b'" "C b'" by blast
  from c b'(2) have "C (b'\<lparr>Block_Description := d\<rparr>)" for d
    by (auto simp: closedUnder_def)
  with b' show ?thesis
    by (simp add: finalizeBlock_Blocks)
qed

lemma pendOK_handleTop: "pendOK P n p \<Longrightarrow> pendOK P n (handleTop p l)"
  by (auto simp: pendOK_def handleTop_def split: option.splits prod.splits)

lemma pendOK_handleShedoc: "pendOK P n p \<Longrightarrow> pendOK P n (handleShedoc p l)"
proof -
  assume a: "pendOK P n p"
  then have "pendOK P n ((finalizeShedoc p)\<lparr>state := stateTop\<rparr>)" by (simp add: pendOK_def)
  then have "pendOK P n (handleTop ((finalizeShedoc p)\<lparr>state := stateTop\<rparr>) l)"
    by (rule pendOK_handleTop)
  with a show ?thesis
    by (auto simp: handleShedoc_def split: option.splits) (auto simp: pendOK_def)
qed

lemma pendOK_handleSheblock:
  assumes a: "pendOK P n p" and ln: "n < line p"
  shows "pendOK P n (handleSheblock p l)"
proof -
  from a have f: "pendOK P n ((finalizeBlock (finalizeCurrentTag p))\<lparr>state := stateTop\<rparr>)"
    by (simp add: pendOK_def)
  show ?thesis
  proof (cases "reBlockClose l")
    case True
    with f show ?thesis by (simp add: handleSheblock_def)
  next
    case nc: False
    show ?thesis
    proof (cases "reContinuation l")
      case None
      with nc pendOK_handleTop [OF f] show ?thesis by (simp add: handleSheblock_def)
    next
      case (Some content)
      show ?thesis
      proof (cases "splitTag content")
        case None
        with nc Some a show ?thesis
          by (auto simp: handleSheblock_def pendOK_def)
      next
        case st: (Some nt)
        obtain nm tx where nt: "nt = (nm, tx)" by (cases nt)
        have "pendOK P n (case parseTag nm tx (line p) of
            Inl err \<Rightarrow> addWarning ((finalizeCurrentTag p)\<lparr>inTags := True\<rparr>) (TagWarning err)
          | Inr r \<Rightarrow> (finalizeCurrentTag p)\<lparr>inTags := True, currentTag := nm,
               currentResult := Some r, tagContLines := []\<rparr>)"
        proof (cases "parseTag nm tx (line p)")
          case (Inl e)
          with a show ?thesis by (simp add: pendOK_def addWarning_def)
        next
          case (Inr r)
          then have "resultLine r = line p" by (rule parseTag_line)
          with a ln Inr show ?thesis by (simp add: pendOK_def)
        qed
        with nc Some st nt show ?thesis
          by (simp add: handleSheblock_def Let_def)
      qed
    qed
  qed
qed

lemma pendOK_step: "pendOK P n p \<Longrightarrow> pendOK P n (step p l)"
proof -
  assume a: "pendOK P n p"
  then have "pendOK P n (p\<lparr>line := line p + 1\<rparr>)" and "n < line (p\<lparr>line := line p + 1\<rparr>)"
    by (simp_all add: pendOK_def)
  then show ?thesis
    by (cases "state p")
       (simp_all add: step_def dispatch_def pendOK_handleTop pendOK_handleShedoc
          pendOK_handleSheblock)
qed

lemma building_C: "block p = Some b \<Longrightarrow> C b \<Longrightarrow> building C P p"
  by (simp add: building_def)

lemma kept_handleSheblock:
  assumes c: "closedUnder C P n" and p: "pendOK P n p" and s: "state p = stateSheblock"
    and b: "building C P p" and k: "k = length (Blocks (doc p))"
  shows "(k < length (Blocks (doc (handleSheblock p l))) \<and> C (Blocks (doc (handleSheblock p l)) ! k))
    \<or> (k = length (Blocks (doc (handleSheblock p l))) \<and> state (handleSheblock p l) = stateSheblock
        \<and> building C P (handleSheblock p l))"
proof -
  let ?q = "(finalizeBlock (finalizeCurrentTag p))\<lparr>state := stateTop\<rparr>"
  from building_finalize [OF c p b] obtain b1 where
    b1: "block (finalizeCurrentTag p) = Some b1" "C b1" by blast
  from building_finalizeBlock [OF c p b] obtain b2 where
    b2: "Blocks (doc ?q) = Blocks (doc p) @ [b2]" "C b2" by auto
  then have q: "k < length (Blocks (doc ?q))" "C (Blocks (doc ?q) ! k)"
    using k by simp_all
  show ?thesis
  proof (cases "reBlockClose l")
    case True
    with q show ?thesis by (simp add: handleSheblock_def)
  next
    case nc: False
    show ?thesis
    proof (cases "reContinuation l")
      case None
      have "stays (Blocks (doc ?q)) (Blocks (doc (handleTop ?q l)))" by (rule stays_handleTop)
      from stays_C [OF c this q] nc None show ?thesis by (simp add: handleSheblock_def)
    next
      case (Some content)
      show ?thesis
      proof (cases "splitTag content")
        case None
        have 1: "building C P (finalizeCurrentTag p)"
          using b1 by (rule building_C)
        have 2: "building C P (p\<lparr>tagContLines := x\<rparr>)" "building C P (p\<lparr>blockDesc := y\<rparr>)" for x y
          using b by (simp_all add: building_def)
        from nc Some None s k b 1 2 show ?thesis
          by (simp add: handleSheblock_def)
      next
        case st: (Some nt)
        obtain nm tx where nt: "nt = (nm, tx)" by (cases nt)
        let ?r = "case parseTag nm tx (line p) of
            Inl err \<Rightarrow> addWarning ((finalizeCurrentTag p)\<lparr>inTags := True\<rparr>) (TagWarning err)
          | Inr r \<Rightarrow> (finalizeCurrentTag p)\<lparr>inTags := True, currentTag := nm,
               currentResult := Some r, tagContLines := []\<rparr>"
        have "k = length (Blocks (doc ?r)) \<and> state ?r = stateSheblock \<and> building C P ?r"
          using b1 s k
          by (cases "parseTag nm tx (line p)") (simp_all add: addWarning_def building_def)
        moreover have "handleSheblock p l = ?r"
          using nc Some st nt by (simp add: handleSheblock_def Let_def)
        ultimately show ?thesis by simp
      qed
    qed
  qed
qed

lemma kept_step:
  assumes c: "closedUnder C P n" and kp: "kept C P k n p"
  shows "kept C P k n (step p l)"
proof -
  let ?p = "p\<lparr>line := line p + 1\<rparr>"
  from kp have po: "pendOK P n p" by (simp add: kept_def)
  then have po': "pendOK P n ?p" by (simp add: pendOK_def)
  from po have ps: "pendOK P n (step p l)" by (rule pendOK_step)
  from kp consider
    (fin) "k < length (Blocks (doc p))" "C (Blocks (doc p) ! k)"
    | (cur) "k = length (Blocks (doc p))" "state p = stateSheblock" "building C P p"
    by (auto simp: kept_def)
  then show ?thesis
  proof cases
    case fin
    from stays_C [OF c stays_step fin] ps show ?thesis by (simp add: kept_def)
  next
    case cur
    have "building C P ?p" using cur(3) by (simp add: building_def)
    from kept_handleSheblock [OF c po' _ this, of k l] cur(1,2) ps show ?thesis
      by (simp add: kept_def step_def dispatch_def)
  qed
qed

lemma kept_run: "closedUnder C P n \<Longrightarrow> kept C P k n p \<Longrightarrow> kept C P k n (run p ls)"
  unfolding run_def by (induction ls arbitrary: p) (simp_all add: kept_step)

lemma kept_atEOF:
  assumes c: "closedUnder C P n" and kp: "kept C P k n p"
  shows "k < length (Blocks (doc (atEOF p))) \<and> C (Blocks (doc (atEOF p)) ! k)"
proof -
  from kp have po: "pendOK P n p" by (simp add: kept_def)
  from kp consider
    (fin) "k < length (Blocks (doc p))" "C (Blocks (doc p) ! k)"
    | (cur) "k = length (Blocks (doc p))" "state p = stateSheblock" "building C P p"
    by (auto simp: kept_def)
  then show ?thesis
  proof cases
    case fin
    from stays_C [OF c stays_atEOF fin] show ?thesis .
  next
    case cur
    from building_finalizeBlock [OF c po cur(3)] cur(1,2) show ?thesis
      by (auto simp: atEOF_def)
  qed
qed

subsection \<open>The record of a tag line in its block\<close>

text \<open>
  The records of one kind that a block holds, as tag results, and the text of a record.
  A continuation line after a tag line adds to the text of the record, through
  \<open>appendTagDescription\<close>, and leaves the rest of the record as it is: \<open>grown r r'\<close> says that
  \<open>r'\<close> is \<open>r\<close> with a text that starts with the text of \<open>r\<close>. \<open>populated r b\<close> says that
  the block \<open>b\<close> holds the record \<open>r\<close>, grown or not, among its records of the kind of \<open>r\<close>;
  or, for a singular kind, the record of a later line, which has replaced it.
\<close>

fun records :: "tag_kind \<Rightarrow> Block \<Rightarrow> tag_result list" where
  "records KFlag b = map RFlag (Block_Flags b)"
| "records KOption b = map ROption (Block_Options b)"
| "records KOperand b = map ROperand (Block_Operands b)"
| "records KEnv b = map REnv (Block_Env b)"
| "records KReads b = map RReads (Block_Reads b)"
| "records KStdin b = (case Block_Stdin b of None \<Rightarrow> [] | Some v \<Rightarrow> [RStdin v])"
| "records KExit b = map RExit (Block_Exit b)"
| "records KStdout b = (case Block_Stdout b of None \<Rightarrow> [] | Some v \<Rightarrow> [RStdout v])"
| "records KStderr b = (case Block_Stderr b of None \<Rightarrow> [] | Some v \<Rightarrow> [RStderr v])"
| "records KSets b = map RSets (Block_Sets b)"
| "records KWrites b = map RWrites (Block_Writes b)"
| "records KDeprecated b =
     (case Block_Deprecated b of None \<Rightarrow> [] | Some v \<Rightarrow> [RDeprecated v])"

fun description :: "tag_result \<Rightarrow> string" where
  "description (RFlag v) = Flag_Description v"
| "description (ROption v) = Option_Description v"
| "description (ROperand v) = Operand_Description v"
| "description (REnv v) = Env_Description v"
| "description (RReads v) = Reads_Description v"
| "description (RStdin v) = Stdin_Description v"
| "description (RExit v) = Exit_Description v"
| "description (RStdout v) = Stdout_Description v"
| "description (RStderr v) = Stderr_Description v"
| "description (RSets v) = Sets_Description v"
| "description (RWrites v) = Writes_Description v"
| "description (RDeprecated v) = Deprecated_Message v"

fun withDescription :: "string \<Rightarrow> tag_result \<Rightarrow> tag_result" where
  "withDescription t (RFlag v) = RFlag (v\<lparr>Flag_Description := t\<rparr>)"
| "withDescription t (ROption v) = ROption (v\<lparr>Option_Description := t\<rparr>)"
| "withDescription t (ROperand v) = ROperand (v\<lparr>Operand_Description := t\<rparr>)"
| "withDescription t (REnv v) = REnv (v\<lparr>Env_Description := t\<rparr>)"
| "withDescription t (RReads v) = RReads (v\<lparr>Reads_Description := t\<rparr>)"
| "withDescription t (RStdin v) = RStdin (v\<lparr>Stdin_Description := t\<rparr>)"
| "withDescription t (RExit v) = RExit (v\<lparr>Exit_Description := t\<rparr>)"
| "withDescription t (RStdout v) = RStdout (v\<lparr>Stdout_Description := t\<rparr>)"
| "withDescription t (RStderr v) = RStderr (v\<lparr>Stderr_Description := t\<rparr>)"
| "withDescription t (RSets v) = RSets (v\<lparr>Sets_Description := t\<rparr>)"
| "withDescription t (RWrites v) = RWrites (v\<lparr>Writes_Description := t\<rparr>)"
| "withDescription t (RDeprecated v) = RDeprecated (v\<lparr>Deprecated_Message := t\<rparr>)"

definition grown :: "tag_result \<Rightarrow> tag_result \<Rightarrow> bool" where
  "grown r r' \<longleftrightarrow> r' = withDescription (description r') r \<and> prefix (description r) (description r')"

definition populated :: "tag_result \<Rightarrow> Block \<Rightarrow> bool" where
  "populated r b \<longleftrightarrow>
     list_ex (\<lambda>r'. grown r r' \<or> (singular (kindOf r) \<and> resultLine r < resultLine r'))
       (records (kindOf r) b)"

lemma recordLines_records: "recordLines k b = map resultLine (records k b)"
  by (cases k) (simp_all split: option.splits)

lemma records_upd [simp]:
  "records k (b\<lparr>Block_Description := d\<rparr>) = records k b"
  "records k (b\<lparr>Block_FunctionName := f\<rparr>) = records k b"
  by (cases k; simp)+

lemma applyTag_records:
  "records k (applyTag (tagKind r) r b) =
     (if k = kindOf r then (if singular k then [r] else records k b @ [r]) else records k b)"
  by (cases r; cases k) (simp_all add: applyTag_own singular_def)

lemma grown_refl [simp]: "grown r r"
  by (cases r) (simp_all add: grown_def)

lemma grown_append [simp]: "grown r (appendTagDescription r c)"
  by (cases r) (simp_all add: grown_def joinDesc_def)

lemma grown_same:
  "grown r r' \<Longrightarrow> kindOf r' = kindOf r \<and> tagKind r' = tagKind r \<and> resultLine r' = resultLine r"
  unfolding grown_def by (cases r) (erule conjE, erule ssubst, simp)+

lemma populated_applyTag:
  "populated r b \<Longrightarrow> resultLine r < resultLine r2 \<Longrightarrow> populated r (applyTag nm r2 b)"
  by (subst applyTag_any) (auto simp: populated_def applyTag_records list_ex_iff)

lemma populated_attach:
  "grown r r' \<Longrightarrow> populated r (applyTag (tagKind r) r' b)"
proof -
  assume g: "grown r r'"
  from grown_same [OF g] have s: "kindOf r' = kindOf r" "tagKind r = tagKind r'" by simp_all
  show ?thesis
    unfolding s(2) using g s(1) by (auto simp: populated_def list_ex_iff applyTag_records)
qed

lemma closedUnder_True: "closedUnder (\<lambda>b. True) (\<lambda>nm r. nm \<noteq> []) n"
  by (simp add: closedUnder_def)

lemma tagKind_nonempty: "tagKind r \<noteq> []"
  by (cases r) simp_all

lemma closedUnder_populated:
  "closedUnder (populated r) (\<lambda>nm r'. nm = tagKind r \<and> r' = r) (resultLine r)"
  unfolding closedUnder_def
proof (intro conjI allI impI)
  fix b nm r2 assume "populated r b" "resultLine r < resultLine r2"
  then show "populated r (applyTag nm r2 b)" by (rule populated_applyTag)
next
  fix b d assume "populated r b"
  then show "populated r (b\<lparr>Block_Description := d\<rparr>)" by (simp add: populated_def)
next
  fix b f assume "populated r b"
  then show "populated r (b\<lparr>Block_FunctionName := f\<rparr>)" by (simp add: populated_def)
next
  fix nm r' b c assume a: "nm = tagKind r \<and> r' = r"
  then show "nm \<noteq> []" by (simp add: tagKind_nonempty)
  from a show "populated r (applyTag nm r' b)" by (simp add: populated_attach)
  from a show "populated r (applyTag nm (appendTagDescription r' c) b)"
    by (simp add: populated_attach)
qed

subsection \<open>The step of a tag line\<close>

lemma tag_line_state:
  assumes "p = run newParser ls" and "state p = stateSheblock"
    and "\<not> reBlockClose l" and "reContinuation l = Some content"
    and "splitTag content = Some (name, tagText)"
  shows "run newParser (ls @ [l]) =
     (case parseTag name tagText (length ls + 1) of
        Inl err \<Rightarrow> addWarning ((finalizeCurrentTag p)\<lparr>line := length ls + 1, inTags := True\<rparr>)
          (TagWarning err)
      | Inr r \<Rightarrow> (finalizeCurrentTag p)\<lparr>line := length ls + 1, inTags := True, currentTag := name,
           currentResult := Some r, tagContLines := []\<rparr>)"
proof -
  have ln: "line p = length ls"
    using assms(1) by (simp add: run_line newParser_def)
  have "run newParser (ls @ [l]) = handleSheblock (p\<lparr>line := length ls + 1\<rparr>) l"
    using assms(1,2) ln by (simp add: run_snoc step_def dispatch_def)
  then show ?thesis
    using assms(3,4,5)
    by (simp add: handleSheblock_tag finalizeCurrentTag_line_upd split: sum.splits)
qed

text \<open>
  Claim C1. \<open>ParseReader\<close> returns a document and no error for every list of lines. Let
  \<open>l\<close> be a tag line at line \<open>n\<close> of the input, inside the documentation block that becomes
  block number \<open>k\<close> of the document \<open>d\<close> that \<open>ParseReader\<close> returns; whatever follows \<open>l\<close>,
  that block is in \<open>d\<close>. If the tag parser rejects \<open>l\<close>, then \<open>d\<close> has exactly one warning
  with line \<open>n\<close>, the one with the error of \<open>l\<close>, and no tag record of any block of \<open>d\<close>
  comes from line \<open>n\<close>. If the tag parser accepts \<open>l\<close> with the record \<open>r\<close>, whether or not
  other tag lines of the input are rejected, then \<open>d\<close> has no warning with line \<open>n\<close> and
  block \<open>k\<close> of \<open>d\<close> holds \<open>r\<close>: among its records of the kind of \<open>r\<close>, the record \<open>r\<close> with
  the text of its continuation lines added; or, for a singular kind, the record of a later
  tag line of that kind. The last two conjuncts give the state right after \<open>l\<close>.
\<close>

theorem malformed_tag_warns:
  assumes "p = run newParser ls" and "state p = stateSheblock"
    and "\<not> reBlockClose l" and "reContinuation l = Some content"
    and "splitTag content = Some (name, tagText)"
    and "n = length ls + 1" and "k = length (Blocks (doc p))"
    and "q = run newParser (ls @ [l])"
  shows "(\<forall>xs. \<exists>d. ParseReader xs = Some (d, None))
    \<and> (\<exists>d. ParseReader (ls @ l # rest) = Some (d, None)
      \<and> k < length (Blocks d)
      \<and> (\<forall>e. parseTag name tagText n = Inl e \<longrightarrow>
            warningsAt n d = [\<lparr>Warning_Line = n, Warning_Message = TagWarning e\<rparr>]
            \<and> (\<forall>b \<in> set (Blocks d). \<forall>kd. n \<notin> set (recordLines kd b)))
      \<and> (\<forall>r. parseTag name tagText n = Inr r \<longrightarrow>
            warningsAt n d = [] \<and> populated r (Blocks d ! k)))
    \<and> (\<forall>e. parseTag name tagText n = Inl e \<longrightarrow>
          Warnings (doc q) = Warnings (doc p) @ [\<lparr>Warning_Line = n, Warning_Message = TagWarning e\<rparr>]
          \<and> block q = block (finalizeCurrentTag p) \<and> Blocks (doc q) = Blocks (doc p)
          \<and> currentTag q = [] \<and> currentResult q = None \<and> state q = stateSheblock)
    \<and> (\<forall>r. parseTag name tagText n = Inr r \<longrightarrow>
          Warnings (doc q) = Warnings (doc p)
          \<and> currentTag q = name \<and> currentResult q = Some r \<and> state q = stateSheblock
          \<and> (\<exists>b. block q = Some b \<and> block (finalizeCurrentTag q) = Some (applyTag name r b)
                 \<and> recorded r (applyTag name r b)))"
proof -
  let ?d = "doc (parse newParser (ls @ l # rest))"
  have ret: "ParseReader (ls @ l # rest) = Some (?d, None)"
    by (rule ParseReader_returns)
  have ln: "line p = length ls"
    using assms(1) by (simp add: run_line newParser_def)
  have ip: "inv p" using assms(1) by (simp add: inv_run inv_newParser)
  note q' = tag_line_state [OF assms(1-5), folded assms(6,8)]
  from ip assms(2) obtain b where b: "block (finalizeCurrentTag p) = Some b"
    using finalizeCurrentTag_block(1) [of p] by (auto simp: inv_def)
  have lq: "line q = n" and sq: "state q = stateSheblock"
    and bq: "Blocks (doc q) = Blocks (doc p)" and blq: "block q = Some b"
    using assms(2) b by (simp_all add: q' addWarning_def split: sum.splits)
  have d: "?d = doc (atEOF (run q rest))"
    using assms(8) run_append [of newParser "ls @ [l]" rest] by (simp add: parse_def)
  have w0: "warningsAt n (doc p) = []"
  proof -
    have "warningsAt n (doc (run newParser ls)) = warningsAt n (doc newParser)"
      using assms(6) by (intro warningsAt_run) (simp add: newParser_def)
    then show ?thesis
      by (simp add: assms(1) warningsAt_def newParser_def emptyDocument_def)
  qed
  have wd: "warningsAt n ?d = warningsAt n (doc q)"
    unfolding d using lq sq by (rule warningsAt_parse)
  have np: "noRec n p"
    unfolding assms(1) using noRec_newParser assms(6)
    by (intro noRec_run) (simp_all add: newParser_def)
  have exists: "k < length (Blocks ?d)"
  proof -
    have "kept (\<lambda>b. True) (\<lambda>nm r. nm \<noteq> []) k n q"
      using lq sq bq blq assms(7)
      by (auto simp: kept_def pendOK_def building_def q' addWarning_def parseTag_name
          split: sum.splits)
    with closedUnder_True have "kept (\<lambda>b. True) (\<lambda>nm r. nm \<noteq> []) k n (run q rest)"
      by (rule kept_run)
    with closedUnder_True show ?thesis unfolding d by (rule kept_atEOF [THEN conjunct1])
  qed
  have badstep: "Warnings (doc q) = Warnings (doc p) @ [\<lparr>Warning_Line = n, Warning_Message = TagWarning e\<rparr>]
          \<and> block q = block (finalizeCurrentTag p) \<and> Blocks (doc q) = Blocks (doc p)
          \<and> currentTag q = [] \<and> currentResult q = None \<and> state q = stateSheblock"
    if "parseTag name tagText n = Inl e" for e
    using that assms(2,6) by (simp add: q' addWarning_def)
  have bad: "warningsAt n ?d = [\<lparr>Warning_Line = n, Warning_Message = TagWarning e\<rparr>]
            \<and> (\<forall>b \<in> set (Blocks ?d). \<forall>kd. n \<notin> set (recordLines kd b))"
    if e: "parseTag name tagText n = Inl e" for e
  proof -
    from badstep [OF e] have "warningsAt n (doc q)
        = warningsAt n (doc p) @ [\<lparr>Warning_Line = n, Warning_Message = TagWarning e\<rparr>]"
      by (simp add: warningsAt_def)
    with w0 wd have 1: "warningsAt n ?d = [\<lparr>Warning_Line = n, Warning_Message = TagWarning e\<rparr>]"
      by simp
    from np have "noRec n (finalizeCurrentTag p)" by (rule noRec_finalizeCurrentTag)
    then have "noRec n q"
      using e by (simp add: q' noRec_def addWarning_def)
    then have "noRec n (run q rest)" using lq by (intro noRec_run) simp_all
    then have "noRec n (atEOF (run q rest))" by (rule noRec_atEOF)
    then have "\<forall>b \<in> set (Blocks ?d). \<forall>kd. n \<notin> set (recordLines kd b)"
      unfolding d by (simp add: noRec_def)
    with 1 show ?thesis by simp
  qed
  have goodstep: "Warnings (doc q) = Warnings (doc p)
          \<and> currentTag q = name \<and> currentResult q = Some r \<and> state q = stateSheblock
          \<and> (\<exists>b. block q = Some b \<and> block (finalizeCurrentTag q) = Some (applyTag name r b)
                 \<and> recorded r (applyTag name r b))"
    if r: "parseTag name tagText n = Inr r" for r
  proof -
    from r have qr: "q = (finalizeCurrentTag p)\<lparr>line := n, inTags := True,
        currentTag := name, currentResult := Some r, tagContLines := []\<rparr>"
      by (simp add: q')
    have "block (finalizeCurrentTag q) = Some (applyTag name r b)"
      by (rule finalizeCurrentTag_pending [where r = r])
         (simp_all add: qr b parseTag_name [OF r])
    moreover have "recorded r (applyTag name r b)"
      using r by (rule parseTag_recorded)
    ultimately show ?thesis using assms(2) blq by (simp add: qr)
  qed
  have good: "warningsAt n ?d = [] \<and> populated r (Blocks ?d ! k)"
    if r: "parseTag name tagText n = Inr r" for r
  proof -
    let ?P = "\<lambda>nm r'. nm = tagKind r \<and> r' = r"
    from goodstep [OF r] w0 wd have 1: "warningsAt n ?d = []"
      by (simp add: warningsAt_def)
    have rl: "resultLine r = n" using r by (rule parseTag_line)
    have "kept (populated r) ?P k n q"
      using goodstep [OF r] lq bq blq assms(7) parseTag_kind [OF r]
      by (simp add: kept_def pendOK_def building_def)
    with closedUnder_populated [of r] have "kept (populated r) ?P k n (run q rest)"
      unfolding rl by (rule kept_run)
    with closedUnder_populated [of r] have "populated r (Blocks ?d ! k)"
      unfolding d rl by (rule kept_atEOF [THEN conjunct2])
    with 1 show ?thesis by simp
  qed
  have all: "\<forall>xs. \<exists>d. ParseReader xs = Some (d, None)"
    by (simp add: ParseReader_returns)
  from all ret exists bad good badstep goodstep show ?thesis by blast
qed

theorem malformed_tag_warns_witness:
  "\<exists>d. ParseReader [''#@/command'', '' # @flag -v'', '' # @bogus x'', '' # @stdout out'', '' ##'']
       = Some (d, None)
     \<and> 0 < length (Blocks d)
     \<and> warningsAt 3 d = [\<lparr>Warning_Line = 3, Warning_Message = TagWarning (ErrUnknownTag ''bogus'')\<rparr>]
     \<and> 3 \<notin> set (recordLines KFlag (Blocks d ! 0))
     \<and> 3 \<notin> set (recordLines KStdout (Blocks d ! 0))
     \<and> warningsAt 4 d = []
     \<and> populated (RStdout \<lparr>Stdout_Description = ''out'', Stdout_Line = 4\<rparr>) (Blocks d ! 0)
     \<and> Warnings d = [\<lparr>Warning_Line = 3, Warning_Message = TagWarning (ErrUnknownTag ''bogus'')\<rparr>]
     \<and> map Block_Flags (Blocks d)
         = [[\<lparr>Flag_Short = ''-v'', Flag_Long = [], Flag_Description = [], Flag_Line = 2\<rparr>]]
     \<and> map Block_Stdout (Blocks d) = [Some \<lparr>Stdout_Description = ''out'', Stdout_Line = 4\<rparr>]"
proof -
  let ?ls = "[''#@/command'', '' # @flag -v'']"
  let ?bad = "'' # @bogus x''"
  let ?good = "'' # @stdout out''"
  let ?d = "doc (parse newParser (?ls @ ?bad # [?good, '' ##'']))"
  have s1: "state (run newParser ?ls) = stateSheblock" by code_simp
  have c1: "\<not> reBlockClose ?bad" by code_simp
  have k1: "reContinuation ?bad = Some ''@bogus x''" by code_simp
  have t1: "splitTag ''@bogus x'' = Some (''bogus'', ''x'')" by code_simp
  have n1: "3 = length ?ls + 1" by simp
  have b1: "0 = length (Blocks (doc (run newParser ?ls)))" by code_simp
  have e1: "parseTag ''bogus'' ''x'' 3 = Inl (ErrUnknownTag ''bogus'')" by code_simp
  have s2: "state (run newParser (?ls @ [?bad])) = stateSheblock" by code_simp
  have c2: "\<not> reBlockClose ?good" by code_simp
  have k2: "reContinuation ?good = Some ''@stdout out''" by code_simp
  have t2: "splitTag ''@stdout out'' = Some (''stdout'', ''out'')" by code_simp
  have n2: "4 = length (?ls @ [?bad]) + 1" by simp
  have b2: "0 = length (Blocks (doc (run newParser (?ls @ [?bad]))))" by code_simp
  have e2: "parseTag ''stdout'' ''out'' 4
      = Inr (RStdout \<lparr>Stdout_Description = ''out'', Stdout_Line = 4\<rparr>)"
    by code_simp
  have r: "ParseReader (?ls @ ?bad # [?good, '' ##'']) = Some (?d, None)"
    by (rule ParseReader_returns)
  from malformed_tag_warns [OF refl s1 c1 k1 t1 n1 b1 refl, of "[?good, '' ##'']"] e1 r
  have bad: "0 < length (Blocks ?d)"
    "warningsAt 3 ?d = [\<lparr>Warning_Line = 3, Warning_Message = TagWarning (ErrUnknownTag ''bogus'')\<rparr>]"
    "\<forall>b \<in> set (Blocks ?d). \<forall>kd. 3 \<notin> set (recordLines kd b)"
    by auto
  from bad(1) have "Blocks ?d ! 0 \<in> set (Blocks ?d)" by (rule nth_mem)
  with bad(3) have none: "3 \<notin> set (recordLines KFlag (Blocks ?d ! 0))"
    "3 \<notin> set (recordLines KStdout (Blocks ?d ! 0))"
    by blast+
  from malformed_tag_warns [OF refl s2 c2 k2 t2 n2 b2 refl, of "['' ##'']"] e2 r
  have good: "warningsAt 4 ?d = []"
    "populated (RStdout \<lparr>Stdout_Description = ''out'', Stdout_Line = 4\<rparr>) (Blocks ?d ! 0)"
    by auto
  have w: "Warnings ?d = [\<lparr>Warning_Line = 3, Warning_Message = TagWarning (ErrUnknownTag ''bogus'')\<rparr>]"
    by code_simp
  have f: "map Block_Flags (Blocks ?d)
      = [[\<lparr>Flag_Short = ''-v'', Flag_Long = [], Flag_Description = [], Flag_Line = 2\<rparr>]]"
    by code_simp
  have o: "map Block_Stdout (Blocks ?d) = [Some \<lparr>Stdout_Description = ''out'', Stdout_Line = 4\<rparr>]"
    by code_simp
  from r bad(1,2) none good w f o show ?thesis by simp
qed

end
